theory Spec2Isabelle
  imports Complex_Main "HOL-Library.AList" "HOL-Library.Sublist"
begin

section \<open>Resilience primitives of \<^verbatim>\<open>service_manager.py\<close>\<close>

text \<open>
  Time stamps (\<^verbatim>\<open>datetime.now()\<close>, \<^verbatim>\<open>.timestamp()\<close>, \<^verbatim>\<open>total_seconds()\<close>) are seconds
  as real numbers; every function that reads the clock takes the reading as the
  argument \<open>now\<close>. Python integers are \<open>int\<close>.
\<close>

subsection \<open>AdaptiveRateLimiter\<close>

record rate_limiter =
  requests_per_minute :: int
  last_request_time :: "real option"
  request_count :: int
  window_start :: real
  consecutive_successes :: int
  consecutive_rate_limits :: int

definition AdaptiveRateLimiter_init :: "real \<Rightarrow> rate_limiter" where
  "AdaptiveRateLimiter_init now =
     \<lparr>requests_per_minute = 60, last_request_time = None, request_count = 0,
      window_start = now, consecutive_successes = 0, consecutive_rate_limits = 0\<rparr>"

definition can_proceed :: "real \<Rightarrow> rate_limiter \<Rightarrow> bool \<times> rate_limiter" where
  "can_proceed now rl =
     (let rl' = (if now - window_start rl \<ge> 60
                 then rl\<lparr>request_count := 0, window_start := now\<rparr> else rl)
      in (request_count rl' < requests_per_minute rl', rl'))"

definition rl_record_success :: "real \<Rightarrow> rate_limiter \<Rightarrow> rate_limiter" where
  "rl_record_success now rl =
     (let rl1 = rl\<lparr>request_count := request_count rl + 1,
                    last_request_time := Some now,
                    consecutive_successes := consecutive_successes rl + 1,
                    consecutive_rate_limits := 0\<rparr>
      in if consecutive_successes rl1 \<ge> 10
         then rl1\<lparr>requests_per_minute := min 120 (requests_per_minute rl1 + 5),
                  consecutive_successes := 0\<rparr>
         else rl1)"

definition record_rate_limit :: "rate_limiter \<Rightarrow> rate_limiter" where
  "record_rate_limit rl =
     (let rl1 = rl\<lparr>consecutive_rate_limits := consecutive_rate_limits rl + 1,
                    consecutive_successes := 0\<rparr>;
          reduction = min 20 (consecutive_rate_limits rl1 * 5)
      in rl1\<lparr>requests_per_minute := max 10 (requests_per_minute rl1 - reduction)\<rparr>)"

text \<open>\<^verbatim>\<open>get_delay\<close> divides by the ceiling: a zero ceiling raises ZeroDivisionError,
  which is the \<open>Inl\<close> branch carrying the exception's message.\<close>

definition get_delay :: "real \<Rightarrow> rate_limiter \<Rightarrow> string + real" where
  "get_delay now rl =
     (case last_request_time rl of
        None \<Rightarrow> Inr 0
      | Some t \<Rightarrow>
          if requests_per_minute rl = 0 then Inl ''float division by zero''
          else (let time_since_last = now - t;
                    min_interval = 60 / real_of_int (requests_per_minute rl)
                in if time_since_last < min_interval
                   then Inr (min_interval - time_since_last) else Inr 0))"

text \<open>The calls a client can make on a limiter, and a run of them.\<close>

datatype rl_call = CanProceed real | RLSuccess real | RLRateLimit | GetDelay real

fun rl_step :: "rate_limiter \<Rightarrow> rl_call \<Rightarrow> rate_limiter" where
  "rl_step rl (CanProceed now) = snd (can_proceed now rl)"
| "rl_step rl (RLSuccess now) = rl_record_success now rl"
| "rl_step rl RLRateLimit = record_rate_limit rl"
| "rl_step rl (GetDelay now) = rl"

definition rl_run :: "rate_limiter \<Rightarrow> rl_call list \<Rightarrow> rate_limiter" where
  "rl_run rl cs = foldl rl_step rl cs"

text \<open>What every reachable limiter satisfies.\<close>

definition rl_inv :: "rate_limiter \<Rightarrow> bool" where
  "rl_inv rl \<longleftrightarrow>
     10 \<le> requests_per_minute rl \<and> requests_per_minute rl \<le> 120 \<and>
     requests_per_minute rl mod 5 = 0 \<and>
     0 \<le> consecutive_successes rl \<and> consecutive_successes rl < 10 \<and>
     0 \<le> consecutive_rate_limits rl"

lemma rl_inv_init: "rl_inv (AdaptiveRateLimiter_init now)"
  by (simp add: rl_inv_def AdaptiveRateLimiter_init_def)

lemma rl_inv_step: "rl_inv rl \<Longrightarrow> rl_inv (rl_step rl c)"
proof (cases c)
  case (CanProceed now)
  assume "rl_inv rl"
  then show ?thesis using CanProceed
    by (simp add: rl_inv_def can_proceed_def Let_def)
next
  case (RLSuccess now)
  assume "rl_inv rl"
  then show ?thesis using RLSuccess
    by (auto simp: rl_inv_def rl_record_success_def Let_def min_def)
next
  case RLRateLimit
  assume "rl_inv rl"
  then show ?thesis using RLRateLimit
    by (auto simp: rl_inv_def record_rate_limit_def Let_def min_def max_def)
next
  case (GetDelay now)
  assume "rl_inv rl"
  then show ?thesis using GetDelay by simp
qed

lemma rl_inv_foldl: "rl_inv rl \<Longrightarrow> rl_inv (foldl rl_step rl cs)"
  by (induction cs arbitrary: rl) (simp_all add: rl_inv_step)

lemma rl_inv_run: "rl_inv (rl_run (AdaptiveRateLimiter_init t0) cs)"
  unfolding rl_run_def by (rule rl_inv_foldl [OF rl_inv_init])

lemma rl_successes_below:
  "0 \<le> consecutive_successes rl \<Longrightarrow>
   consecutive_successes rl + int (length ts) < 10 \<Longrightarrow>
   requests_per_minute (foldl (\<lambda>r t. rl_record_success t r) rl ts) = requests_per_minute rl \<and>
   consecutive_successes (foldl (\<lambda>r t. rl_record_success t r) rl ts)
     = consecutive_successes rl + int (length ts)"
proof (induction ts arbitrary: rl)
  case Nil
  then show ?case by simp
next
  case (Cons t ts)
  let ?r = "rl_record_success t rl"
  from Cons.prems have r: "requests_per_minute ?r = requests_per_minute rl"
      "consecutive_successes ?r = consecutive_successes rl + 1"
    by (simp_all add: rl_record_success_def Let_def)
  from Cons.prems r have "0 \<le> consecutive_successes ?r"
      "consecutive_successes ?r + int (length ts) < 10"
    by simp_all
  from Cons.IH [OF this] r show ?case by simp
qed

lemma rl_tenth_success:
  "consecutive_successes rl = 9 \<Longrightarrow>
   requests_per_minute (rl_record_success t rl) = min 120 (requests_per_minute rl + 5) \<and>
   consecutive_successes (rl_record_success t rl) = 0"
  by (simp add: rl_record_success_def Let_def)

lemma rl_ten_successes:
  assumes "consecutive_successes rl = 0" and "length ts = 10"
  shows "requests_per_minute (foldl (\<lambda>r t. rl_record_success t r) rl ts)
           = min 120 (requests_per_minute rl + 5) \<and>
         consecutive_successes (foldl (\<lambda>r t. rl_record_success t r) rl ts) = 0"
proof -
  from assms(2) obtain us u where ts: "ts = us @ [u]" and len: "length us = 9"
    by (cases ts rule: rev_cases) auto
  let ?m = "foldl (\<lambda>r t. rl_record_success t r) rl us"
  from assms(1) len have m: "requests_per_minute ?m = requests_per_minute rl"
      "consecutive_successes ?m = 9"
    using rl_successes_below [of rl us] by simp_all
  from rl_tenth_success [OF m(2), of u] m(1) show ?thesis
    by (simp add: ts)
qed

definition rl_successes :: "real list \<Rightarrow> rate_limiter \<Rightarrow> rate_limiter" where
  "rl_successes ts rl = foldl (\<lambda>r t. rl_record_success t r) rl ts"

subsection \<open>CircuitBreaker\<close>

datatype breaker_state = CLOSED | OPEN | HALF_OPEN

record circuit_breaker =
  failure_threshold :: int
  recovery_timeout :: real
  half_open_max_calls :: int
  failure_count :: int
  last_failure_time :: "real option"
  state :: breaker_state
  half_open_calls :: int

text \<open>The constructor with its default arguments, as \<^verbatim>\<open>RateLimitHandler\<close> calls it.\<close>

definition CircuitBreaker_init :: circuit_breaker where
  "CircuitBreaker_init =
     \<lparr>failure_threshold = 5, recovery_timeout = 60, half_open_max_calls = 3,
      failure_count = 0, last_failure_time = None, state = CLOSED, half_open_calls = 0\<rparr>"

definition should_attempt_reset :: "real \<Rightarrow> circuit_breaker \<Rightarrow> bool" where
  "should_attempt_reset now cb =
     (case last_failure_time cb of
        None \<Rightarrow> True
      | Some t \<Rightarrow> now - t > recovery_timeout cb)"

definition can_execute :: "real \<Rightarrow> circuit_breaker \<Rightarrow> bool \<times> circuit_breaker" where
  "can_execute now cb =
     (case state cb of
        CLOSED \<Rightarrow> (True, cb)
      | OPEN \<Rightarrow>
          if should_attempt_reset now cb
          then (True, cb\<lparr>state := HALF_OPEN, half_open_calls := 0\<rparr>)
          else (False, cb)
      | HALF_OPEN \<Rightarrow> (half_open_calls cb < half_open_max_calls cb, cb))"

definition cb_record_success :: "circuit_breaker \<Rightarrow> circuit_breaker" where
  "cb_record_success cb =
     (case state cb of
        HALF_OPEN \<Rightarrow>
          (let cb1 = cb\<lparr>half_open_calls := half_open_calls cb + 1\<rparr>
           in if half_open_calls cb1 \<ge> half_open_max_calls cb1
              then cb1\<lparr>state := CLOSED, failure_count := 0\<rparr> else cb1)
      | CLOSED \<Rightarrow> cb\<lparr>failure_count := max 0 (failure_count cb - 1)\<rparr>
      | OPEN \<Rightarrow> cb)"

definition cb_record_failure :: "real \<Rightarrow> circuit_breaker \<Rightarrow> circuit_breaker" where
  "cb_record_failure now cb =
     (let cb1 = cb\<lparr>failure_count := failure_count cb + 1, last_failure_time := Some now\<rparr>
      in if failure_count cb1 \<ge> failure_threshold cb1 then cb1\<lparr>state := OPEN\<rparr> else cb1)"

datatype cb_call = CanExecute real | CBSuccess | CBFailure real

fun cb_step :: "circuit_breaker \<Rightarrow> cb_call \<Rightarrow> circuit_breaker" where
  "cb_step cb (CanExecute now) = snd (can_execute now cb)"
| "cb_step cb CBSuccess = cb_record_success cb"
| "cb_step cb (CBFailure now) = cb_record_failure now cb"

definition cb_run :: "circuit_breaker \<Rightarrow> cb_call list \<Rightarrow> circuit_breaker" where
  "cb_run cb cs = foldl cb_step cb cs"

definition cb_failures :: "real list \<Rightarrow> circuit_breaker \<Rightarrow> circuit_breaker" where
  "cb_failures ts cb = foldl (\<lambda>c t. cb_record_failure t c) cb ts"

definition cb_successes :: "nat \<Rightarrow> circuit_breaker \<Rightarrow> circuit_breaker" where
  "cb_successes n cb = (cb_record_success ^^ n) cb"

text \<open>What every breaker reachable from the default constructor satisfies.\<close>

definition cb_inv :: "circuit_breaker \<Rightarrow> bool" where
  "cb_inv cb \<longleftrightarrow>
     failure_threshold cb = 5 \<and> recovery_timeout cb = 60 \<and> half_open_max_calls cb = 3 \<and>
     0 \<le> failure_count cb \<and> 0 \<le> half_open_calls cb \<and>
     (case state cb of
        CLOSED \<Rightarrow> failure_count cb < 5
      | OPEN \<Rightarrow> 5 \<le> failure_count cb \<and> last_failure_time cb \<noteq> None
      | HALF_OPEN \<Rightarrow> 5 \<le> failure_count cb \<and> half_open_calls cb < 3
                      \<and> last_failure_time cb \<noteq> None)"

lemma cb_inv_init: "cb_inv CircuitBreaker_init"
  by (simp add: cb_inv_def CircuitBreaker_init_def)

lemma cb_inv_can_execute: "cb_inv cb \<Longrightarrow> cb_inv (snd (can_execute now cb))"
  by (cases "state cb") (auto simp: cb_inv_def can_execute_def)

lemma cb_inv_record_success: "cb_inv cb \<Longrightarrow> cb_inv (cb_record_success cb)"
  by (cases "state cb") (auto simp: cb_inv_def cb_record_success_def Let_def)

lemma cb_inv_record_failure: "cb_inv cb \<Longrightarrow> cb_inv (cb_record_failure now cb)"
  by (cases "state cb") (auto simp: cb_inv_def cb_record_failure_def Let_def)

lemma cb_inv_step: "cb_inv cb \<Longrightarrow> cb_inv (cb_step cb c)"
  by (cases c) (simp_all add: cb_inv_can_execute cb_inv_record_success cb_inv_record_failure)

lemma cb_inv_foldl: "cb_inv cb \<Longrightarrow> cb_inv (foldl cb_step cb cs)"
  by (induction cs arbitrary: cb) (simp_all add: cb_inv_step)

lemma cb_inv_run: "cb_inv (cb_run CircuitBreaker_init cs)"
  unfolding cb_run_def by (rule cb_inv_foldl [OF cb_inv_init])

lemma cb_failures_count:
  "failure_count (cb_failures ts cb) = failure_count cb + int (length ts) \<and>
   failure_threshold (cb_failures ts cb) = failure_threshold cb \<and>
   recovery_timeout (cb_failures ts cb) = recovery_timeout cb"
  unfolding cb_failures_def
  by (induction ts arbitrary: cb) (simp_all add: cb_record_failure_def Let_def)

lemma cb_failures_snoc:
  "cb_failures (ts @ [t]) cb = cb_record_failure t (cb_failures ts cb)"
  by (simp add: cb_failures_def)

lemma cb_five_failures:
  assumes "failure_threshold cb = 5" and "0 \<le> failure_count cb" and "length ts = 5"
  shows "state (cb_failures ts cb) = OPEN \<and> last_failure_time (cb_failures ts cb) = Some (last ts)"
proof -
  from assms(3) obtain us u where ts: "ts = us @ [u]" and len: "length us = 4"
    by (cases ts rule: rev_cases) auto
  have "failure_count (cb_failures us cb) = failure_count cb + 4"
      "failure_threshold (cb_failures us cb) = 5"
    using cb_failures_count [of us cb] len assms(1) by simp_all
  with assms(2) show ?thesis
    by (simp add: ts cb_failures_snoc cb_record_failure_def Let_def)
qed

lemma cb_open_rejects:
  "state cb = OPEN \<Longrightarrow> last_failure_time cb = Some t \<Longrightarrow> now - t \<le> recovery_timeout cb \<Longrightarrow>
   can_execute now cb = (False, cb)"
  by (simp add: can_execute_def should_attempt_reset_def)

lemma cb_three_successes:
  "state cb = HALF_OPEN \<Longrightarrow> half_open_calls cb = 0 \<Longrightarrow> half_open_max_calls cb = 3 \<Longrightarrow>
   state (cb_successes 1 cb) = HALF_OPEN \<and> state (cb_successes 2 cb) = HALF_OPEN \<and>
   state (cb_successes 3 cb) = CLOSED \<and> failure_count (cb_successes 3 cb) = 0"
  by (simp add: cb_successes_def numeral_2_eq_2 numeral_3_eq_3 cb_record_success_def Let_def)

lemma cb_half_open_failure:
  "cb_inv cb \<Longrightarrow> state cb = HALF_OPEN \<Longrightarrow>
   state (cb_record_failure now cb) = OPEN \<and>
   last_failure_time (cb_record_failure now cb) = Some now"
  by (simp add: cb_inv_def cb_record_failure_def Let_def)

text \<open>
  In a breaker reachable from the default constructor that is HALF_OPEN the trial
  counter is below 3, because \<open>record_success\<close> alone increments it and closes the
  breaker when it reaches 3. So the comparison of \<open>can_execute\<close> with
  \<open>half_open_max_calls\<close> never refuses: every \<open>can_execute\<close> on a HALF_OPEN breaker
  returns true and changes nothing.
\<close>

lemma half_open_never_refuses:
  assumes "state (cb_run CircuitBreaker_init cs) = HALF_OPEN"
  shows "can_execute now (cb_run CircuitBreaker_init cs) = (True, cb_run CircuitBreaker_init cs)"
  using cb_inv_run [of cs] assms by (simp add: can_execute_def cb_inv_def)

text \<open>
  The transitions of a breaker \<open>cb\<close> reachable from the default constructor: five
  consecutive \<open>record_failure\<close> calls leave it OPEN, and \<open>can_execute\<close> returns false as
  long as no more than 60 s have passed since the last of them; an OPEN breaker whose
  last failure is more than 60 s old answers the next \<open>can_execute\<close> with true and
  becomes HALF_OPEN with \<open>half_open_calls = 0\<close>; a HALF_OPEN breaker answers
  \<open>can_execute\<close> with true and is left unchanged by the call; three consecutive
  \<open>record_success\<close> calls from a freshly HALF_OPEN breaker restore CLOSED with a zero
  failure counter (one or two leave it HALF_OPEN); a \<open>record_success\<close> while CLOSED
  lowers the failure counter by one, not below zero; a \<open>record_failure\<close> while HALF_OPEN
  returns the breaker to OPEN and sets the recovery clock to the time of that failure.
\<close>

lemma cb_transitions:
  fixes cs :: "cb_call list" and ts :: "real list" and now t :: real
  defines "cb \<equiv> cb_run CircuitBreaker_init cs"
  shows
   "(length ts = 5 \<and> now - last ts \<le> 60 \<longrightarrow>
       state (cb_failures ts cb) = OPEN \<and> \<not> fst (can_execute now (cb_failures ts cb))) \<and>
    (state cb = OPEN \<and> last_failure_time cb = Some t \<and> 60 < now - t \<longrightarrow>
       can_execute now cb = (True, cb\<lparr>state := HALF_OPEN, half_open_calls := 0\<rparr>)) \<and>
    (state cb = HALF_OPEN \<longrightarrow> can_execute now cb = (True, cb)) \<and>
    (state cb = HALF_OPEN \<and> half_open_calls cb = 0 \<longrightarrow>
       state (cb_successes 1 cb) = HALF_OPEN \<and> state (cb_successes 2 cb) = HALF_OPEN \<and>
       state (cb_successes 3 cb) = CLOSED \<and> failure_count (cb_successes 3 cb) = 0) \<and>
    (state cb = CLOSED \<longrightarrow>
       failure_count (cb_record_success cb) = max 0 (failure_count cb - 1) \<and>
       state (cb_record_success cb) = CLOSED) \<and>
    (state cb = HALF_OPEN \<longrightarrow>
       state (cb_record_failure now cb) = OPEN \<and>
       last_failure_time (cb_record_failure now cb) = Some now)"
proof -
  have inv: "cb_inv cb" unfolding cb_def by (rule cb_inv_run)
  then have par: "failure_threshold cb = 5" "recovery_timeout cb = 60"
      "half_open_max_calls cb = 3" "0 \<le> failure_count cb"
    by (simp_all add: cb_inv_def)
  have a: "length ts = 5 \<and> now - last ts \<le> 60 \<longrightarrow>
       state (cb_failures ts cb) = OPEN \<and> \<not> fst (can_execute now (cb_failures ts cb))"
  proof
    assume h: "length ts = 5 \<and> now - last ts \<le> 60"
    then have o: "state (cb_failures ts cb) = OPEN"
        "last_failure_time (cb_failures ts cb) = Some (last ts)"
      using cb_five_failures [OF par(1) par(4), of ts] by simp_all
    have "recovery_timeout (cb_failures ts cb) = 60"
      using cb_failures_count [of ts cb] par(2) by simp
    with h have "can_execute now (cb_failures ts cb) = (False, cb_failures ts cb)"
      using cb_open_rejects [OF o, of now] by simp
    with o show "state (cb_failures ts cb) = OPEN \<and> \<not> fst (can_execute now (cb_failures ts cb))"
      by simp
  qed
  have b: "state cb = OPEN \<and> last_failure_time cb = Some t \<and> 60 < now - t \<longrightarrow>
       can_execute now cb = (True, cb\<lparr>state := HALF_OPEN, half_open_calls := 0\<rparr>)"
    using par by (simp add: can_execute_def should_attempt_reset_def)
  have c: "state cb = HALF_OPEN \<longrightarrow> can_execute now cb = (True, cb)"
    using inv by (auto simp: can_execute_def cb_inv_def)
  have d: "state cb = HALF_OPEN \<and> half_open_calls cb = 0 \<longrightarrow>
       state (cb_successes 1 cb) = HALF_OPEN \<and> state (cb_successes 2 cb) = HALF_OPEN \<and>
       state (cb_successes 3 cb) = CLOSED \<and> failure_count (cb_successes 3 cb) = 0"
    using cb_three_successes [of cb] par(3) by blast
  have e: "state cb = CLOSED \<longrightarrow>
       failure_count (cb_record_success cb) = max 0 (failure_count cb - 1) \<and>
       state (cb_record_success cb) = CLOSED"
    by (simp add: cb_record_success_def)
  have f: "state cb = HALF_OPEN \<longrightarrow>
       state (cb_record_failure now cb) = OPEN \<and>
       last_failure_time (cb_record_failure now cb) = Some now"
    using cb_half_open_failure [OF inv] by blast
  from a b c d e f show ?thesis by blast
qed

text \<open>
  The lemmas below evaluate the breaker on runs of calls: after five failures at time 0
  it is OPEN; a \<open>can_execute\<close> at 61 makes it HALF_OPEN.
\<close>

definition cb_tripped :: "cb_call list" where
  "cb_tripped = [CBFailure 0, CBFailure 0, CBFailure 0, CBFailure 0, CBFailure 0]"

lemma cb_run_tripped:
  "cb_run CircuitBreaker_init cb_tripped =
     \<lparr>failure_threshold = 5, recovery_timeout = 60, half_open_max_calls = 3,
      failure_count = 5, last_failure_time = Some 0, state = OPEN, half_open_calls = 0\<rparr>"
  by (simp add: cb_run_def cb_tripped_def CircuitBreaker_init_def cb_record_failure_def Let_def)

lemma cb_run_half_open:
  "cb_run CircuitBreaker_init (cb_tripped @ [CanExecute 61]) =
     \<lparr>failure_threshold = 5, recovery_timeout = 60, half_open_max_calls = 3,
      failure_count = 5, last_failure_time = Some 0, state = HALF_OPEN, half_open_calls = 0\<rparr>"
  using cb_run_tripped
  by (simp add: cb_run_def can_execute_def should_attempt_reset_def)

lemma cb_run_closed:
  "cb_run CircuitBreaker_init [CBFailure 0, CBFailure 1] =
     \<lparr>failure_threshold = 5, recovery_timeout = 60, half_open_max_calls = 3,
      failure_count = 2, last_failure_time = Some 1, state = CLOSED, half_open_calls = 0\<rparr>"
  by (simp add: cb_run_def CircuitBreaker_init_def cb_record_failure_def Let_def)

lemma cb_transitions_example:
  "\<not> fst (can_execute 30 (cb_failures [1, 2, 3, 4, 5] (cb_run CircuitBreaker_init []))) \<and>
   fst (can_execute 61 (cb_run CircuitBreaker_init cb_tripped)) \<and>
   state (snd (can_execute 61 (cb_run CircuitBreaker_init cb_tripped))) = HALF_OPEN \<and>
   can_execute 70 (cb_run CircuitBreaker_init (cb_tripped @ [CanExecute 61]))
     = (True, cb_run CircuitBreaker_init (cb_tripped @ [CanExecute 61])) \<and>
   state (cb_successes 3 (cb_run CircuitBreaker_init (cb_tripped @ [CanExecute 61]))) = CLOSED \<and>
   failure_count (cb_successes 3 (cb_run CircuitBreaker_init (cb_tripped @ [CanExecute 61]))) = 0 \<and>
   failure_count (cb_record_success (cb_run CircuitBreaker_init [CBFailure 0, CBFailure 1])) = 1 \<and>
   state (cb_record_failure 70 (cb_run CircuitBreaker_init (cb_tripped @ [CanExecute 61]))) = OPEN \<and>
   last_failure_time (cb_record_failure 70 (cb_run CircuitBreaker_init (cb_tripped @ [CanExecute 61])))
     = Some 70"
  using cb_transitions [of "[1, 2, 3, 4, 5]" 30 "[]" 0]
    cb_transitions [of "[]" 61 cb_tripped 0]
    cb_transitions [of "[]" 70 "cb_tripped @ [CanExecute 61]" 0]
    cb_transitions [of "[]" 70 "[CBFailure 0, CBFailure 1]" 0]
  by (simp add: cb_run_tripped cb_run_half_open cb_run_closed)

text \<open>
  C3 fails in the code at the trial budget of the HALF_OPEN state. \<open>can_execute\<close>
  compares \<open>half_open_calls\<close> with \<open>half_open_max_calls\<close> (3), but an allowance does
  not count a call: after the breaker has opened at time 0, the four \<open>can_execute\<close>
  calls at 61, 62, 63 and 64 all return true although no outcome has been recorded in
  between, one more than the budget, and the trial counter is still 0 after them.
\<close>

theorem C3_half_open_allowances_exceed_budget:
  "fst (can_execute 61 (cb_run CircuitBreaker_init cb_tripped)) \<and>
   fst (can_execute 62 (cb_run CircuitBreaker_init (cb_tripped @ [CanExecute 61]))) \<and>
   fst (can_execute 63 (cb_run CircuitBreaker_init (cb_tripped @ [CanExecute 61, CanExecute 62]))) \<and>
   fst (can_execute 64 (cb_run CircuitBreaker_init
          (cb_tripped @ [CanExecute 61, CanExecute 62, CanExecute 63]))) \<and>
   half_open_calls (cb_run CircuitBreaker_init
          (cb_tripped @ [CanExecute 61, CanExecute 62, CanExecute 63, CanExecute 64])) = 0"
  using cb_run_tripped
  by (simp add: cb_run_def can_execute_def should_attempt_reset_def)

text \<open>
  C6. The ceiling \<open>requests_per_minute\<close> starts at 60 and stays within [10, 120] after
  every run of calls on a fresh limiter. In a reachable limiter, ten consecutive
  \<open>record_success\<close> calls (counter at 0 before) leave the ceiling at
  \<open>min 120 (ceiling + 5)\<close>, which is exactly 5 more whenever the ceiling was below 120,
  with the counter back at 0; every \<open>record_rate_limit\<close> leaves it at
  \<open>max 10 (ceiling - min 20 (5 * consecutive_rate_limits))\<close>, strictly less whenever the
  ceiling was above 10, with the consecutive successes at 0.
\<close>

theorem C6_rate_limiter_adaptation:
  fixes t0 :: real and cs :: "rl_call list" and ts :: "real list"
  defines "rl \<equiv> rl_run (AdaptiveRateLimiter_init t0) cs"
  shows
   "requests_per_minute (AdaptiveRateLimiter_init t0) = 60 \<and>
    10 \<le> requests_per_minute rl \<and> requests_per_minute rl \<le> 120 \<and>
    (consecutive_successes rl = 0 \<and> length ts = 10 \<longrightarrow>
       requests_per_minute (rl_successes ts rl) = min 120 (requests_per_minute rl + 5) \<and>
       (requests_per_minute rl < 120 \<longrightarrow>
          requests_per_minute (rl_successes ts rl) = requests_per_minute rl + 5) \<and>
       consecutive_successes (rl_successes ts rl) = 0) \<and>
    consecutive_rate_limits (record_rate_limit rl) = consecutive_rate_limits rl + 1 \<and>
    requests_per_minute (record_rate_limit rl)
      = max 10 (requests_per_minute rl
                - min 20 (consecutive_rate_limits (record_rate_limit rl) * 5)) \<and>
    (10 < requests_per_minute rl \<longrightarrow>
       requests_per_minute (record_rate_limit rl) < requests_per_minute rl) \<and>
    consecutive_successes (record_rate_limit rl) = 0"
proof -
  have inv: "rl_inv rl" unfolding rl_def by (rule rl_inv_run)
  have a: "requests_per_minute (AdaptiveRateLimiter_init t0) = 60"
    by (simp add: AdaptiveRateLimiter_init_def)
  have b: "10 \<le> requests_per_minute rl \<and> requests_per_minute rl \<le> 120"
    using inv by (simp add: rl_inv_def)
  have c: "consecutive_successes rl = 0 \<and> length ts = 10 \<longrightarrow>
       requests_per_minute (rl_successes ts rl) = min 120 (requests_per_minute rl + 5) \<and>
       (requests_per_minute rl < 120 \<longrightarrow>
          requests_per_minute (rl_successes ts rl) = requests_per_minute rl + 5) \<and>
       consecutive_successes (rl_successes ts rl) = 0"
  proof
    assume h: "consecutive_successes rl = 0 \<and> length ts = 10"
    then have t: "requests_per_minute (rl_successes ts rl) = min 120 (requests_per_minute rl + 5)"
        "consecutive_successes (rl_successes ts rl) = 0"
      unfolding rl_successes_def using rl_ten_successes [of rl ts] by simp_all
    have "requests_per_minute rl < 120 \<longrightarrow> requests_per_minute rl + 5 \<le> 120"
      using inv unfolding rl_inv_def by presburger
    with t show "requests_per_minute (rl_successes ts rl) = min 120 (requests_per_minute rl + 5) \<and>
       (requests_per_minute rl < 120 \<longrightarrow>
          requests_per_minute (rl_successes ts rl) = requests_per_minute rl + 5) \<and>
       consecutive_successes (rl_successes ts rl) = 0"
      by simp
  qed
  have d: "consecutive_rate_limits (record_rate_limit rl) = consecutive_rate_limits rl + 1 \<and>
    requests_per_minute (record_rate_limit rl)
      = max 10 (requests_per_minute rl
                - min 20 (consecutive_rate_limits (record_rate_limit rl) * 5)) \<and>
    (10 < requests_per_minute rl \<longrightarrow>
       requests_per_minute (record_rate_limit rl) < requests_per_minute rl) \<and>
    consecutive_successes (record_rate_limit rl) = 0"
    using inv unfolding rl_inv_def record_rate_limit_def Let_def
    by (auto simp: min_def max_def)
  from a b c d show ?thesis by blast
qed

theorem C6_rate_limiter_adaptation_witness:
  "requests_per_minute (rl_successes [1, 2, 3, 4, 5, 6, 7, 8, 9, 10]
       (rl_run (AdaptiveRateLimiter_init 0) [])) = 65 \<and>
   consecutive_successes (rl_successes [1, 2, 3, 4, 5, 6, 7, 8, 9, 10]
       (rl_run (AdaptiveRateLimiter_init 0) [])) = 0 \<and>
   requests_per_minute (record_rate_limit (rl_run (AdaptiveRateLimiter_init 0) [])) = 55 \<and>
   requests_per_minute (record_rate_limit (rl_run (AdaptiveRateLimiter_init 0) [RLRateLimit])) = 45"
  using C6_rate_limiter_adaptation [of 0 "[]" "[1, 2, 3, 4, 5, 6, 7, 8, 9, 10]"]
    C6_rate_limiter_adaptation [of 0 "[RLRateLimit]" "[]"]
  by (simp add: rl_run_def AdaptiveRateLimiter_init_def record_rate_limit_def Let_def)


subsection \<open>Error classification\<close>

text \<open>
  Strings are lists of characters, and a character is a code point below 256.
  \<^verbatim>\<open>str.lower()\<close> maps the letters A to Z (65 to 90) and the capital letters of the
  range U+00C0 to U+00DE (192 to 222), the multiplication sign U+00D7 (215) apart, to the
  code point 32 above, and leaves every other code point below 256 as it is;
  \<^verbatim>\<open>kw in s\<close> is the substring test.
\<close>

definition lower_char :: "char \<Rightarrow> char" where
  "lower_char c =
     (let n = of_char c :: nat
      in if (65 \<le> n \<and> n \<le> 90) \<or> (192 \<le> n \<and> n \<le> 222 \<and> n \<noteq> 215)
         then char_of (n + 32) else c)"

definition str_lower :: "string \<Rightarrow> string" where
  "str_lower s = map lower_char s"

fun py_in :: "string \<Rightarrow> string \<Rightarrow> bool" where
  "py_in kw [] = (kw = [])"
| "py_in kw (c # cs) = (prefix kw (c # cs) \<or> py_in kw cs)"

datatype error_type = rate_limit | transient | permanent | unknown

definition rate_limit_keywords :: "string list" where
  "rate_limit_keywords = [''rate limit'', ''too many requests'', ''quota exceeded'', ''throttled'']"

definition transient_keywords :: "string list" where
  "transient_keywords =
     [''timeout'', ''connection'', ''network'', ''temporary'', ''service unavailable'']"

definition permanent_keywords :: "string list" where
  "permanent_keywords =
     [''authentication'', ''authorization'', ''forbidden'', ''not found'', ''invalid'']"

definition classify_error :: "string \<Rightarrow> error_type" where
  "classify_error error =
     (let error_str = str_lower error
      in if list_ex (\<lambda>keyword. py_in keyword error_str) rate_limit_keywords then rate_limit
         else if list_ex (\<lambda>keyword. py_in keyword error_str) transient_keywords then transient
         else if list_ex (\<lambda>keyword. py_in keyword error_str) permanent_keywords then permanent
         else unknown)"

lemma py_in_iff: "py_in kw s \<longleftrightarrow> (\<exists>p q. s = p @ kw @ q)"
proof (induction s)
  case Nil
  then show ?case by auto
next
  case (Cons c cs)
  show ?case
  proof
    assume "py_in kw (c # cs)"
    then consider "prefix kw (c # cs)" | "py_in kw cs" by auto
    then show "\<exists>p q. c # cs = p @ kw @ q"
    proof cases
      case 1
      then obtain q where "c # cs = kw @ q" by (auto simp: prefix_def)
      then have "c # cs = [] @ kw @ q" by simp
      then show ?thesis by blast
    next
      case 2
      with Cons.IH obtain p q where "cs = p @ kw @ q" by blast
      then have "c # cs = (c # p) @ kw @ q" by simp
      then show ?thesis by blast
    qed
  next
    assume "\<exists>p q. c # cs = p @ kw @ q"
    then obtain p q where pq: "c # cs = p @ kw @ q" by blast
    show "py_in kw (c # cs)"
    proof (cases p)
      case Nil
      with pq have "prefix kw (c # cs)" by (simp add: prefix_def)
      then show ?thesis by simp
    next
      case (Cons a p')
      with pq have "cs = p' @ kw @ q" by simp
      with Cons.IH have "py_in kw cs" by blast
      then show ?thesis by simp
    qed
  qed
qed

lemma py_in_lower:
  assumes "py_in kw s" and "str_lower kw = kw"
  shows "py_in kw (str_lower s)"
proof -
  from assms(1) obtain p q where "s = p @ kw @ q" by (auto simp: py_in_iff)
  then have "str_lower s = str_lower p @ kw @ str_lower q"
    using assms(2) by (simp add: str_lower_def)
  then show ?thesis unfolding py_in_iff by blast
qed

lemma lower_keywords:
  "str_lower ''rate limit'' = ''rate limit''"
  "str_lower ''throttled'' = ''throttled''"
  "str_lower ''quota exceeded'' = ''quota exceeded''"
  "str_lower ''too many requests'' = ''too many requests''"
  by (simp_all add: str_lower_def lower_char_def)


subsection \<open>RateLimitHandler.with_retry\<close>

text \<open>
  The wrapper runs in a state that holds the two primitives, the clock, the number of
  invocations of the wrapped function so far and the trace of what the wrapper did.
  \<^verbatim>\<open>time.sleep(d)\<close> advances the clock by \<open>d\<close> and raises ValueError for a negative
  \<open>d\<close>. The wrapped function is \<open>func\<close>: its \<open>n\<close>-th invocation takes \<open>fst (func n)\<close>
  seconds and returns \<open>Inr result\<close> or raises an exception whose \<^verbatim>\<open>str\<close> is the
  \<open>Inl\<close> message. \<open>jitter attempt\<close> is the value \<^verbatim>\<open>random.uniform(0, 1)\<close> draws on that
  attempt. An exception is represented by its message, the only part the wrapper
  reads.
\<close>

datatype event =
  Invoke | Sleep real | CB_record_success | CB_record_failure
  | RL_record_success | RL_record_rate_limit

record wstate =
  breaker :: circuit_breaker
  limiter :: rate_limiter
  clock :: real
  calls :: nat
  trace :: "event list"

definition RateLimitHandler_init :: "real \<Rightarrow> wstate" where
  "RateLimitHandler_init now =
     \<lparr>breaker = CircuitBreaker_init, limiter = AdaptiveRateLimiter_init now,
      clock = now, calls = 0, trace = []\<rparr>"

record retry_params =
  max_retries :: int
  base_delay :: real
  max_delay :: real

definition breaker_open_message :: string where
  "breaker_open_message = ''Circuit breaker is open - service temporarily unavailable''"

definition sleep :: "real \<Rightarrow> wstate \<Rightarrow> string + wstate" where
  "sleep d s =
     (if d < 0 then Inl ''sleep length must be non-negative''
      else Inr (s\<lparr>clock := clock s + d, trace := trace s @ [Sleep d]\<rparr>))"

text \<open>The body of the \<^verbatim>\<open>try\<close>: the result, or the message of the exception raised in it.\<close>

definition try_block :: "(nat \<Rightarrow> real \<times> (string + 'r)) \<Rightarrow> wstate \<Rightarrow> (string + 'r) \<times> wstate" where
  "try_block func s =
     (let (ok, cb1) = can_execute (clock s) (breaker s);
          s1 = s\<lparr>breaker := cb1\<rparr>
      in if \<not> ok then (Inl breaker_open_message, s1)
         else
           (let (go, rl1) = can_proceed (clock s1) (limiter s1);
                s2 = s1\<lparr>limiter := rl1\<rparr>
            in case (if go then Inr s2
                     else (case get_delay (clock s2) (limiter s2) of
                             Inl e \<Rightarrow> Inl e
                           | Inr delay \<Rightarrow> sleep delay s2)) of
                 Inl e \<Rightarrow> (Inl e, s2)
               | Inr s3 \<Rightarrow>
                   (let (duration, outcome) = func (calls s3);
                        s4 = s3\<lparr>calls := calls s3 + 1, clock := clock s3 + duration,
                                 trace := trace s3 @ [Invoke]\<rparr>
                    in case outcome of
                         Inl e \<Rightarrow> (Inl e, s4)
                       | Inr result \<Rightarrow>
                           (Inr result,
                            s4\<lparr>breaker := cb_record_success (breaker s4),
                               limiter := rl_record_success (clock s4) (limiter s4),
                               trace := trace s4 @ [CB_record_success, RL_record_success]\<rparr>))))"

text \<open>
  What one pass through the loop body ends with: \<open>Return\<close> leaves the wrapper with the
  result, \<open>Retry e\<close> goes on to the next attempt with \<^verbatim>\<open>last_exception = e\<close>, \<open>Break e\<close>
  is the \<^verbatim>\<open>break\<close> of the permanent branch, \<open>Escape e\<close> is an exception raised inside
  the \<^verbatim>\<open>except\<close> block, which leaves the wrapper at once.
\<close>

datatype 'r attempt_result = Return 'r | Retry string | Break string | Escape string

definition backoff ::
  "string \<Rightarrow> real \<Rightarrow> wstate \<Rightarrow> (wstate \<Rightarrow> wstate) \<Rightarrow> 'r attempt_result \<times> wstate" where
  "backoff e delay s after =
     (case sleep delay s of
        Inl e' \<Rightarrow> (Escape e', s)
      | Inr s' \<Rightarrow> (Retry e, after s'))"

definition except_block ::
  "retry_params \<Rightarrow> (nat \<Rightarrow> real) \<Rightarrow> nat \<Rightarrow> string \<Rightarrow> wstate \<Rightarrow> 'r attempt_result \<times> wstate" where
  "except_block p jitter attempt e s =
     (let error_type = classify_error e;
          s1 = s\<lparr>breaker := cb_record_failure (clock s) (breaker s),
                  trace := trace s @ [CB_record_failure]\<rparr>
      in case error_type of
           rate_limit \<Rightarrow>
             backoff e (min (base_delay p * 2 ^ attempt + jitter attempt) (max_delay p)) s1
               (\<lambda>s2. s2\<lparr>limiter := record_rate_limit (limiter s2),
                         trace := trace s2 @ [RL_record_rate_limit]\<rparr>)
         | transient \<Rightarrow>
             backoff e (min (base_delay p * (real attempt + 1)) (max_delay p)) s1 (\<lambda>s2. s2)
         | permanent \<Rightarrow> (Break e, s1)
         | unknown \<Rightarrow>
             backoff e (min (base_delay p * (3 / 2) ^ attempt) (max_delay p)) s1 (\<lambda>s2. s2))"

definition attempt_body ::
  "retry_params \<Rightarrow> (nat \<Rightarrow> real \<times> (string + 'r)) \<Rightarrow> (nat \<Rightarrow> real) \<Rightarrow> nat \<Rightarrow> wstate
     \<Rightarrow> 'r attempt_result \<times> wstate" where
  "attempt_body p func jitter attempt s =
     (case try_block func s of
        (Inr result, s') \<Rightarrow> (Return result, s')
      | (Inl e, s') \<Rightarrow> except_block p jitter attempt e s')"

text \<open>
  The \<^verbatim>\<open>for attempt in range(max_retries)\<close> loop with \<open>n\<close> attempts left, and the
  \<^verbatim>\<open>raise last_exception\<close> after it (a TypeError when no attempt was made and
  \<^verbatim>\<open>last_exception\<close> is still None).
\<close>

fun retry_loop ::
  "retry_params \<Rightarrow> (nat \<Rightarrow> real \<times> (string + 'r)) \<Rightarrow> (nat \<Rightarrow> real) \<Rightarrow> nat \<Rightarrow> nat
     \<Rightarrow> string option \<Rightarrow> wstate \<Rightarrow> (string + 'r) \<times> wstate" where
  "retry_loop p func jitter 0 attempt last_exception s =
     (case last_exception of
        None \<Rightarrow> (Inl ''exceptions must derive from BaseException'', s)
      | Some e \<Rightarrow> (Inl e, s))"
| "retry_loop p func jitter (Suc n) attempt last_exception s =
     (case attempt_body p func jitter attempt s of
        (Return result, s') \<Rightarrow> (Inr result, s')
      | (Retry e, s') \<Rightarrow> retry_loop p func jitter n (attempt + 1) (Some e) s'
      | (Break e, s') \<Rightarrow> (Inl e, s')
      | (Escape e, s') \<Rightarrow> (Inl e, s'))"

definition with_retry ::
  "retry_params \<Rightarrow> (nat \<Rightarrow> real \<times> (string + 'r)) \<Rightarrow> (nat \<Rightarrow> real) \<Rightarrow> wstate
     \<Rightarrow> (string + 'r) \<times> wstate" where
  "with_retry p func jitter s = retry_loop p func jitter (nat (max_retries p)) 0 None s"

text \<open>The parameters \<^verbatim>\<open>enhanced_ai_generate\<close> wraps the AI call with.\<close>

definition enhanced_params :: retry_params where
  "enhanced_params = \<lparr>max_retries = 5, base_delay = 2, max_delay = 120\<rparr>"


text \<open>How often the trace records a \<open>record_success\<close> or \<open>record_failure\<close> call on the breaker.\<close>

definition cb_records :: "event list \<Rightarrow> nat" where
  "cb_records tr = length (filter (\<lambda>e. e = CB_record_success \<or> e = CB_record_failure) tr)"

lemma can_execute_rejected:
  "\<not> fst (can_execute now cb) \<Longrightarrow> can_execute now cb = (False, cb)"
  by (cases "state cb") (auto simp: can_execute_def split: if_splits)

lemma try_block_rejected:
  "\<not> fst (can_execute (clock s) (breaker s)) \<Longrightarrow> try_block func s = (Inl breaker_open_message, s)"
  by (simp add: try_block_def can_execute_rejected)

lemma classify_breaker_open: "classify_error breaker_open_message = unknown"
  by (simp add: classify_error_def breaker_open_message_def str_lower_def lower_char_def
      rate_limit_keywords_def transient_keywords_def permanent_keywords_def)

lemma backoff_sleeps:
  "0 \<le> d \<Longrightarrow>
   backoff e d s after = (Retry e, after (s\<lparr>clock := clock s + d, trace := trace s @ [Sleep d]\<rparr>))"
  by (simp add: backoff_def sleep_def)

lemma except_block_unknown:
  assumes "classify_error e = unknown"
    and "d = min (base_delay p * (3 / 2) ^ attempt) (max_delay p)" and "0 \<le> d"
  shows "except_block p jitter attempt e s =
     (Retry e, s\<lparr>breaker := cb_record_failure (clock s) (breaker s),
                 clock := clock s + d,
                 trace := trace s @ [CB_record_failure, Sleep d]\<rparr>)"
  using assms(1)
  by (simp add: except_block_def Let_def assms(2) [symmetric] backoff_sleeps [OF assms(3)])

lemma cb_records_append: "cb_records (xs @ ys) = cb_records xs + cb_records ys"
  by (simp add: cb_records_def)

lemma try_block_records:
  "try_block func s = (Inl e, s') \<Longrightarrow> cb_records (trace s') = cb_records (trace s)"
  "try_block func s = (Inr r, s') \<Longrightarrow> cb_records (trace s') = cb_records (trace s) + 1"
  by (auto simp: try_block_def Let_def sleep_def cb_records_def
      split: prod.splits if_splits sum.splits)

lemma except_block_records:
  "cb_records (trace (snd (except_block p jitter attempt e s :: 'r attempt_result \<times> wstate)))
     = cb_records (trace s) + 1"
  by (cases "classify_error e")
    (auto simp: except_block_def backoff_def Let_def sleep_def cb_records_def split: sum.splits)

lemma attempt_body_records:
  "cb_records (trace (snd (attempt_body p func jitter attempt s))) = cb_records (trace s) + 1"
proof (cases "try_block func s")
  case (Pair out s')
  show ?thesis
  proof (cases out)
    case (Inl e)
    with Pair show ?thesis
      using try_block_records(1) [of func s e s'] except_block_records [of p jitter attempt e s']
      by (simp add: attempt_body_def)
  next
    case (Inr r)
    with Pair show ?thesis
      using try_block_records(2) [of func s r s'] by (simp add: attempt_body_def)
  qed
qed

lemma classify_rate_limit:
  assumes "py_in kw msg \<or> py_in kw (str_lower msg)" and "kw \<in> set rate_limit_keywords"
  shows "classify_error msg = rate_limit"
proof -
  from assms(2) have "str_lower kw = kw"
    by (auto simp: rate_limit_keywords_def lower_keywords)
  with assms(1) have "py_in kw (str_lower msg)" using py_in_lower by blast
  with assms(2) have "list_ex (\<lambda>keyword. py_in keyword (str_lower msg)) rate_limit_keywords"
    unfolding list_ex_iff by blast
  then show ?thesis by (simp add: classify_error_def)
qed

lemma classify_permanent:
  assumes "py_in kw msg \<or> py_in kw (str_lower msg)" and "kw \<in> set permanent_keywords"
    and "\<forall>k \<in> set (rate_limit_keywords @ transient_keywords). \<not> py_in k (str_lower msg)"
  shows "classify_error msg = permanent"
proof -
  from assms(2) have "str_lower kw = kw"
    by (auto simp: permanent_keywords_def str_lower_def lower_char_def)
  with assms(1) have "py_in kw (str_lower msg)" using py_in_lower by blast
  with assms(2) have "list_ex (\<lambda>keyword. py_in keyword (str_lower msg)) permanent_keywords"
    unfolding list_ex_iff by blast
  moreover from assms(3) have "\<not> list_ex (\<lambda>keyword. py_in keyword (str_lower msg)) rate_limit_keywords"
      "\<not> list_ex (\<lambda>keyword. py_in keyword (str_lower msg)) transient_keywords"
    unfolding list_ex_iff by auto
  ultimately show ?thesis by (simp add: classify_error_def)
qed

lemma except_block_rate_limit:
  assumes "classify_error e = rate_limit"
    and "d = min (base_delay p * 2 ^ attempt + jitter attempt) (max_delay p)" and "0 \<le> d"
  shows "except_block p jitter attempt e s =
     (Retry e, s\<lparr>breaker := cb_record_failure (clock s) (breaker s),
                 limiter := record_rate_limit (limiter s),
                 clock := clock s + d,
                 trace := trace s @ [CB_record_failure, Sleep d, RL_record_rate_limit]\<rparr>)"
  using assms(1)
  by (simp add: except_block_def Let_def assms(2) [symmetric] backoff_sleeps [OF assms(3)])

lemma except_block_permanent:
  "classify_error e = permanent \<Longrightarrow>
   except_block p jitter attempt e s =
     (Break e, s\<lparr>breaker := cb_record_failure (clock s) (breaker s),
                 trace := trace s @ [CB_record_failure]\<rparr>)"
  by (simp add: except_block_def Let_def)


text \<open>Wrapped functions for the examples: one that always raises the given message, one
  that raises it on its first invocation only.\<close>

definition raising :: "string \<Rightarrow> nat \<Rightarrow> real \<times> (string + unit)" where
  "raising m n = (0, Inl m)"

definition raising_once :: "string \<Rightarrow> nat \<Rightarrow> real \<times> (string + unit)" where
  "raising_once m n = (if n = 0 then (0, Inl m) else (0, Inr ()))"

lemma try_block_init_raising:
  "func 0 = (0, Inl m) \<Longrightarrow> try_block func (RateLimitHandler_init 0) =
     (Inl m, (RateLimitHandler_init 0)\<lparr>calls := 1, trace := [Invoke]\<rparr>)"
  by (simp add: try_block_def RateLimitHandler_init_def can_execute_def CircuitBreaker_init_def
      can_proceed_def AdaptiveRateLimiter_init_def Let_def)

text \<open>
  An attempt that the breaker rejects. On an attempt where \<open>can_execute\<close> returns false
  the wrapped function is not invoked (\<open>calls\<close> is unchanged): the \<^verbatim>\<open>try\<close> block raises the
  "service temporarily unavailable" exception, which the \<^verbatim>\<open>except\<close> block handles like
  any other error of the unclassified kind: it calls \<open>record_failure\<close> on the breaker,
  sleeps \<open>min (base * 1.5 ^ attempt) max_delay\<close> and goes on to the next attempt, so the
  attempt counts against the retry budget. On every attempt, whether the function was
  invoked or not, exactly one of \<open>record_success\<close> and \<open>record_failure\<close> is called on
  the breaker.
\<close>

lemma breaker_rejected_attempt:
  fixes p :: retry_params and func :: "nat \<Rightarrow> real \<times> (string + 'r)" and jitter :: "nat \<Rightarrow> real"
    and attempt n :: nat and last_exception :: "string option" and s :: wstate
  defines "d \<equiv> min (base_delay p * (3 / 2) ^ attempt) (max_delay p)"
  defines "s' \<equiv> s\<lparr>breaker := cb_record_failure (clock s) (breaker s), clock := clock s + d,
                    trace := trace s @ [CB_record_failure, Sleep d]\<rparr>"
  shows
   "(\<not> fst (can_execute (clock s) (breaker s)) \<and> 0 \<le> d \<longrightarrow>
       try_block func s = (Inl breaker_open_message, s) \<and>
       attempt_body p func jitter attempt s = (Retry breaker_open_message, s') \<and>
       calls s' = calls s \<and>
       retry_loop p func jitter (Suc n) attempt last_exception s
         = retry_loop p func jitter n (attempt + 1) (Some breaker_open_message) s') \<and>
    cb_records (trace (snd (attempt_body p func jitter attempt s))) = cb_records (trace s) + 1"
proof -
  have a: "\<not> fst (can_execute (clock s) (breaker s)) \<and> 0 \<le> d \<longrightarrow>
       try_block func s = (Inl breaker_open_message, s) \<and>
       attempt_body p func jitter attempt s = (Retry breaker_open_message, s') \<and>
       calls s' = calls s \<and>
       retry_loop p func jitter (Suc n) attempt last_exception s
         = retry_loop p func jitter n (attempt + 1) (Some breaker_open_message) s'"
  proof
    assume h: "\<not> fst (can_execute (clock s) (breaker s)) \<and> 0 \<le> d"
    then have t: "try_block func s = (Inl breaker_open_message, s)"
      by (simp add: try_block_rejected)
    have e: "except_block p jitter attempt breaker_open_message s
               = (Retry breaker_open_message :: 'r attempt_result, s')"
      unfolding s'_def
      by (rule except_block_unknown [OF classify_breaker_open]) (use h in \<open>simp_all add: d_def\<close>)
    from t e have b: "attempt_body p func jitter attempt s = (Retry breaker_open_message, s')"
      by (simp add: attempt_body_def)
    have c: "calls s' = calls s" by (simp add: s'_def)
    from b have "retry_loop p func jitter (Suc n) attempt last_exception s
         = retry_loop p func jitter n (attempt + 1) (Some breaker_open_message) s'"
      by simp
    with t b c show "try_block func s = (Inl breaker_open_message, s) \<and>
       attempt_body p func jitter attempt s = (Retry breaker_open_message, s') \<and>
       calls s' = calls s \<and>
       retry_loop p func jitter (Suc n) attempt last_exception s
         = retry_loop p func jitter n (attempt + 1) (Some breaker_open_message) s'"
      by blast
  qed
  from a attempt_body_records [of p func jitter attempt s] show ?thesis by blast
qed

text \<open>
  \<open>tripped_handler\<close> is the handler after one wrapped call whose five attempts all
  failed: its breaker is OPEN.
\<close>

definition tripped_handler :: wstate where
  "tripped_handler = snd (with_retry enhanced_params (raising ''boom'') (\<lambda>_. 0) (RateLimitHandler_init 0))"

lemma tripped_handler_eq:
  "tripped_handler =
   \<lparr>breaker =
     \<lparr>failure_threshold = 5, recovery_timeout = 60, half_open_max_calls = 3,
        failure_count = 5, last_failure_time = Some (65 / 4), state = OPEN,
        half_open_calls = 0\<rparr>,
     limiter =
       \<lparr>requests_per_minute = 60, last_request_time = None,
          request_count = 0, window_start = 0, consecutive_successes = 0,
          consecutive_rate_limits = 0\<rparr>,
     clock = 211 / 8, calls = 5,
     trace =
       [Invoke, CB_record_failure, Sleep 2, Invoke, CB_record_failure,
        Sleep 3, Invoke, CB_record_failure, Sleep (9 / 2), Invoke,
        CB_record_failure, Sleep (27 / 4), Invoke, CB_record_failure,
        Sleep (81 / 8)]\<rparr>"
  by code_simp


lemma breaker_rejected_attempt_example:
  "attempt_body enhanced_params (raising ''boom'') (\<lambda>_. 0) 0 tripped_handler
     = (Retry breaker_open_message,
        tripped_handler\<lparr>breaker := cb_record_failure (211 / 8) (breaker tripped_handler),
          clock := 211 / 8 + 2, trace := trace tripped_handler @ [CB_record_failure, Sleep 2]\<rparr>) \<and>
   calls (snd (attempt_body enhanced_params (raising ''boom'') (\<lambda>_. 0) 0 tripped_handler)) = 5 \<and>
   cb_records (trace (snd (attempt_body enhanced_params (raising ''boom'') (\<lambda>_. 0) 0 tripped_handler))) = 6"
  using breaker_rejected_attempt [of tripped_handler enhanced_params 0 "raising ''boom''" "\<lambda>_. 0" 0 None]
  by (simp add: tripped_handler_eq enhanced_params_def can_execute_def should_attempt_reset_def
      cb_records_def)


lemma tripped_handler_rejected:
  "with_retry enhanced_params (raising ''boom'') (\<lambda>_. 0) tripped_handler =
   (Inl breaker_open_message,
    \<lparr>breaker =
     \<lparr>failure_threshold = 5, recovery_timeout = 60, half_open_max_calls = 3,
        failure_count = 10, last_failure_time = Some (341 / 8),
        state = OPEN, half_open_calls = 0\<rparr>,
     limiter =
       \<lparr>requests_per_minute = 60, last_request_time = None,
          request_count = 0, window_start = 0, consecutive_successes = 0,
          consecutive_rate_limits = 0\<rparr>,
     clock = 211 / 4, calls = 5,
     trace =
       [Invoke, CB_record_failure, Sleep 2, Invoke, CB_record_failure,
        Sleep 3, Invoke, CB_record_failure, Sleep (9 / 2), Invoke,
        CB_record_failure, Sleep (27 / 4), Invoke, CB_record_failure,
        Sleep (81 / 8), CB_record_failure, Sleep 2, CB_record_failure,
        Sleep 3, CB_record_failure, Sleep (9 / 2), CB_record_failure,
        Sleep (27 / 4), CB_record_failure, Sleep (81 / 8)]\<rparr>)"
  unfolding tripped_handler_eq by code_simp

text \<open>
  C5 fails in the code: \<open>record_failure\<close> is called for attempts on which the wrapped
  function was never invoked. A second wrapped call on \<open>tripped_handler\<close> is rejected
  by the breaker on all five attempts and fails with the "service temporarily
  unavailable" exception; the function is invoked no further time (5 invocations before
  and after), and yet \<open>record_failure\<close> has been called five more times: the failure
  counter goes from 5 to 10, and the recovery clock, which stood at the last failure of
  the function (16.25), has been restarted by the rejected attempts (42.625).
\<close>

theorem C5_record_failure_without_invocation:
  "fst (with_retry enhanced_params (raising ''boom'') (\<lambda>_. 0) tripped_handler)
     = Inl breaker_open_message \<and>
   calls tripped_handler = 5 \<and>
   calls (snd (with_retry enhanced_params (raising ''boom'') (\<lambda>_. 0) tripped_handler)) = 5 \<and>
   cb_records (trace tripped_handler) = 5 \<and>
   cb_records (trace (snd (with_retry enhanced_params (raising ''boom'') (\<lambda>_. 0) tripped_handler))) = 10 \<and>
   failure_count (breaker (snd (with_retry enhanced_params (raising ''boom'') (\<lambda>_. 0) tripped_handler))) = 10 \<and>
   last_failure_time (breaker tripped_handler) = Some (65 / 4) \<and>
   last_failure_time
     (breaker (snd (with_retry enhanced_params (raising ''boom'') (\<lambda>_. 0) tripped_handler)))
     = Some (341 / 8)"
  by (simp add: tripped_handler_rejected) (simp add: tripped_handler_eq cb_records_def)

text \<open>
  C7. The class of an error is a function of its message (containment is tested on the
  lower-cased message, so a keyword that occurs in the message in any case counts).
  A message that contains "rate limit", "throttled" or "quota exceeded" is classified
  \<open>rate_limit\<close>, and when an attempt fails with such a message the wrapper records the
  failure, sleeps \<open>min (base * 2 ^ attempt + jitter) max_delay\<close>, notifies the limiter and
  goes on to the next attempt. A message that contains "not found", "authentication",
  "forbidden" or "invalid" and none of the rate-limit or transient keywords is
  classified \<open>permanent\<close>, and when an attempt fails with such a message the wrapper
  records the failure and raises that error at once, whatever number of attempts is
  left.
\<close>

theorem C7_retry_classification:
  fixes msg :: string and p :: retry_params and func :: "nat \<Rightarrow> real \<times> (string + 'r)"
    and jitter :: "nat \<Rightarrow> real" and attempt n :: nat and last_exception :: "string option"
    and s :: wstate
  defines "s1 \<equiv> snd (try_block func s)"
  defines "d \<equiv> min (base_delay p * 2 ^ attempt + jitter attempt) (max_delay p)"
  shows
   "((\<exists>kw \<in> set [''rate limit'', ''throttled'', ''quota exceeded''].
        py_in kw msg \<or> py_in kw (str_lower msg)) \<longrightarrow> classify_error msg = rate_limit) \<and>
    (classify_error msg = rate_limit \<and> fst (try_block func s) = Inl msg \<and> 0 \<le> d \<longrightarrow>
       retry_loop p func jitter (Suc n) attempt last_exception s =
         retry_loop p func jitter n (attempt + 1) (Some msg)
           (s1\<lparr>breaker := cb_record_failure (clock s1) (breaker s1),
               limiter := record_rate_limit (limiter s1),
               clock := clock s1 + d,
               trace := trace s1 @ [CB_record_failure, Sleep d, RL_record_rate_limit]\<rparr>)) \<and>
    ((\<exists>kw \<in> set [''not found'', ''authentication'', ''forbidden'', ''invalid''].
        py_in kw msg \<or> py_in kw (str_lower msg)) \<and>
     (\<forall>k \<in> set (rate_limit_keywords @ transient_keywords). \<not> py_in k (str_lower msg))
       \<longrightarrow> classify_error msg = permanent) \<and>
    (classify_error msg = permanent \<and> fst (try_block func s) = Inl msg \<longrightarrow>
       retry_loop p func jitter (Suc n) attempt last_exception s =
         (Inl msg, s1\<lparr>breaker := cb_record_failure (clock s1) (breaker s1),
                       trace := trace s1 @ [CB_record_failure]\<rparr>))"
proof -
  have a: "(\<exists>kw \<in> set [''rate limit'', ''throttled'', ''quota exceeded''].
        py_in kw msg \<or> py_in kw (str_lower msg)) \<longrightarrow> classify_error msg = rate_limit"
  proof
    assume "\<exists>kw \<in> set [''rate limit'', ''throttled'', ''quota exceeded''].
        py_in kw msg \<or> py_in kw (str_lower msg)"
    then obtain kw where k: "kw \<in> set [''rate limit'', ''throttled'', ''quota exceeded'']"
        "py_in kw msg \<or> py_in kw (str_lower msg)" by blast
    from k(1) have "kw \<in> set rate_limit_keywords" by (auto simp: rate_limit_keywords_def)
    with k(2) show "classify_error msg = rate_limit" by (rule classify_rate_limit)
  qed
  have tb: "fst (try_block func s) = Inl msg \<Longrightarrow> try_block func s = (Inl msg, s1)"
    unfolding s1_def by (cases "try_block func s") simp
  have b: "classify_error msg = rate_limit \<and> fst (try_block func s) = Inl msg \<and> 0 \<le> d \<longrightarrow>
       retry_loop p func jitter (Suc n) attempt last_exception s =
         retry_loop p func jitter n (attempt + 1) (Some msg)
           (s1\<lparr>breaker := cb_record_failure (clock s1) (breaker s1),
               limiter := record_rate_limit (limiter s1),
               clock := clock s1 + d,
               trace := trace s1 @ [CB_record_failure, Sleep d, RL_record_rate_limit]\<rparr>)"
  proof
    assume h: "classify_error msg = rate_limit \<and> fst (try_block func s) = Inl msg \<and> 0 \<le> d"
    then have e: "except_block p jitter attempt msg s1 =
       (Retry msg :: 'r attempt_result, s1\<lparr>breaker := cb_record_failure (clock s1) (breaker s1),
               limiter := record_rate_limit (limiter s1),
               clock := clock s1 + d,
               trace := trace s1 @ [CB_record_failure, Sleep d, RL_record_rate_limit]\<rparr>)"
      using except_block_rate_limit [of msg d p attempt jitter s1] by (simp add: d_def)
    from h tb have "try_block func s = (Inl msg, s1)" by blast
    with e show "retry_loop p func jitter (Suc n) attempt last_exception s =
         retry_loop p func jitter n (attempt + 1) (Some msg)
           (s1\<lparr>breaker := cb_record_failure (clock s1) (breaker s1),
               limiter := record_rate_limit (limiter s1),
               clock := clock s1 + d,
               trace := trace s1 @ [CB_record_failure, Sleep d, RL_record_rate_limit]\<rparr>)"
      by (simp add: attempt_body_def)
  qed
  have c: "(\<exists>kw \<in> set [''not found'', ''authentication'', ''forbidden'', ''invalid''].
        py_in kw msg \<or> py_in kw (str_lower msg)) \<and>
     (\<forall>k \<in> set (rate_limit_keywords @ transient_keywords). \<not> py_in k (str_lower msg))
       \<longrightarrow> classify_error msg = permanent"
  proof
    assume h: "(\<exists>kw \<in> set [''not found'', ''authentication'', ''forbidden'', ''invalid''].
        py_in kw msg \<or> py_in kw (str_lower msg)) \<and>
     (\<forall>k \<in> set (rate_limit_keywords @ transient_keywords). \<not> py_in k (str_lower msg))"
    then obtain kw where k: "kw \<in> set [''not found'', ''authentication'', ''forbidden'', ''invalid'']"
        "py_in kw msg \<or> py_in kw (str_lower msg)" by blast
    from k(1) have "kw \<in> set permanent_keywords" by (auto simp: permanent_keywords_def)
    with k(2) h show "classify_error msg = permanent"
      using classify_permanent [of kw msg] by blast
  qed
  have d': "classify_error msg = permanent \<and> fst (try_block func s) = Inl msg \<longrightarrow>
       retry_loop p func jitter (Suc n) attempt last_exception s =
         (Inl msg, s1\<lparr>breaker := cb_record_failure (clock s1) (breaker s1),
                       trace := trace s1 @ [CB_record_failure]\<rparr>)"
  proof
    assume h: "classify_error msg = permanent \<and> fst (try_block func s) = Inl msg"
    with tb have "try_block func s = (Inl msg, s1)" by blast
    with h show "retry_loop p func jitter (Suc n) attempt last_exception s =
         (Inl msg, s1\<lparr>breaker := cb_record_failure (clock s1) (breaker s1),
                       trace := trace s1 @ [CB_record_failure]\<rparr>)"
      by (simp add: attempt_body_def except_block_permanent)
  qed
  from a b c d' show ?thesis by blast
qed


lemma classify_samples:
  "classify_error ''429 rate limit reached'' = rate_limit"
  "classify_error ''invoice not found'' = permanent"
  by (simp_all add: classify_error_def str_lower_def lower_char_def
      rate_limit_keywords_def transient_keywords_def permanent_keywords_def)

lemma retry_loop_all_succeed:
  "retry_loop enhanced_params (raising_once m) (\<lambda>_. 1 / 2) 4 1 (Some m)
     ((RateLimitHandler_init 0)
        \<lparr>calls := 1, trace := [Invoke],
          breaker := cb_record_failure 0 CircuitBreaker_init,
          limiter := record_rate_limit (AdaptiveRateLimiter_init 0),
          clock := 5 / 2,
          trace := [Invoke, CB_record_failure, Sleep (5 / 2), RL_record_rate_limit]\<rparr>)
   = (Inr (), 
     \<lparr>breaker = cb_record_success (cb_record_failure 0 CircuitBreaker_init),
      limiter = rl_record_success (5 / 2) (record_rate_limit (AdaptiveRateLimiter_init 0)),
      clock = 5 / 2, calls = 2,
      trace = [Invoke, CB_record_failure, Sleep (5 / 2), RL_record_rate_limit,
               Invoke, CB_record_success, RL_record_success]\<rparr>)"
  by (simp add: numeral_eq_Suc attempt_body_def try_block_def RateLimitHandler_init_def
      raising_once_def can_execute_def cb_record_failure_def CircuitBreaker_init_def
      can_proceed_def record_rate_limit_def AdaptiveRateLimiter_init_def Let_def)


lemma keyword_samples:
  "py_in ''rate limit'' ''429 rate limit reached''"
  "py_in ''not found'' ''invoice not found''"
  "\<forall>k \<in> set (rate_limit_keywords @ transient_keywords). \<not> py_in k (str_lower ''invoice not found'')"
  by (simp_all add: str_lower_def lower_char_def rate_limit_keywords_def transient_keywords_def)

theorem C7_retry_classification_witness:
  "classify_error ''429 rate limit reached'' = rate_limit \<and>
   with_retry enhanced_params (raising_once ''429 rate limit reached'') (\<lambda>_. 1 / 2)
       (RateLimitHandler_init 0)
     = (Inr (),
        \<lparr>breaker = cb_record_success (cb_record_failure 0 CircuitBreaker_init),
         limiter = rl_record_success (5 / 2) (record_rate_limit (AdaptiveRateLimiter_init 0)),
         clock = 5 / 2, calls = 2,
         trace = [Invoke, CB_record_failure, Sleep (5 / 2), RL_record_rate_limit,
                  Invoke, CB_record_success, RL_record_success]\<rparr>) \<and>
   classify_error ''invoice not found'' = permanent \<and>
   with_retry enhanced_params (raising ''invoice not found'') (\<lambda>_. 0) (RateLimitHandler_init 0)
     = (Inl ''invoice not found'',
        (RateLimitHandler_init 0)
          \<lparr>calls := 1, breaker := cb_record_failure 0 CircuitBreaker_init,
            trace := [Invoke, CB_record_failure]\<rparr>)"
proof -
  let ?m1 = "''429 rate limit reached''" and ?m2 = "''invoice not found''"
  have c1: "classify_error ?m1 = rate_limit"
    using C7_retry_classification [of ?m1 "raising_once ?m1" "RateLimitHandler_init 0"
        enhanced_params 0 "\<lambda>_. 1 / 2" 4 None] keyword_samples(1) by simp
  have c2: "classify_error ?m2 = permanent"
    using C7_retry_classification [of ?m2 "raising ?m2" "RateLimitHandler_init 0"
        enhanced_params 0 "\<lambda>_. 0" 4 None] keyword_samples(2,3) by simp
  have t1: "try_block (raising_once ?m1) (RateLimitHandler_init 0) =
     (Inl ?m1, (RateLimitHandler_init 0)\<lparr>calls := 1, trace := [Invoke]\<rparr>)"
    by (rule try_block_init_raising) (simp add: raising_once_def)
  have t2: "try_block (raising ?m2) (RateLimitHandler_init 0) =
     (Inl ?m2, (RateLimitHandler_init 0)\<lparr>calls := 1, trace := [Invoke]\<rparr>)"
    by (rule try_block_init_raising) (simp add: raising_def)
  have five: "nat (max_retries enhanced_params) = Suc 4"
    by (simp add: enhanced_params_def)
  have r1: "with_retry enhanced_params (raising_once ?m1) (\<lambda>_. 1 / 2) (RateLimitHandler_init 0)
     = (Inr (),
        \<lparr>breaker = cb_record_success (cb_record_failure 0 CircuitBreaker_init),
         limiter = rl_record_success (5 / 2) (record_rate_limit (AdaptiveRateLimiter_init 0)),
         clock = 5 / 2, calls = 2,
         trace = [Invoke, CB_record_failure, Sleep (5 / 2), RL_record_rate_limit,
                  Invoke, CB_record_success, RL_record_success]\<rparr>)"
    using C7_retry_classification [of ?m1 "raising_once ?m1" "RateLimitHandler_init 0"
        enhanced_params 0 "\<lambda>_. 1 / 2" 4 None] c1 t1
      retry_loop_all_succeed [of ?m1]
    unfolding with_retry_def five
    by (simp add: enhanced_params_def RateLimitHandler_init_def)
  have r2: "with_retry enhanced_params (raising ?m2) (\<lambda>_. 0) (RateLimitHandler_init 0)
     = (Inl ?m2,
        (RateLimitHandler_init 0)
          \<lparr>calls := 1, breaker := cb_record_failure 0 CircuitBreaker_init,
            trace := [Invoke, CB_record_failure]\<rparr>)"
    using C7_retry_classification [of ?m2 "raising ?m2" "RateLimitHandler_init 0"
        enhanced_params 0 "\<lambda>_. 0" 4 None] c2 t2
    unfolding with_retry_def five
    by (simp add: RateLimitHandler_init_def)
  from c1 r1 c2 r2 show ?thesis by blast
qed


section \<open>The cache store of \<^verbatim>\<open>ServiceManager\<close>\<close>

text \<open>
  Cached payloads and documents are Python values built from None, booleans, numbers,
  strings, lists and dictionaries. A dictionary is an association list in insertion
  order: \<open>AList.update\<close> is \<^verbatim>\<open>d[k] = v\<close> (in place for a present key, at the end for a
  new one), \<open>AList.delete\<close> is \<^verbatim>\<open>d.pop(k, None)\<close>, \<open>map_of\<close> the lookup.
\<close>

datatype json =
  JNone | JBool bool | JNum int | JFloat real | JStr string
  | JList "json list" | JDict "(string \<times> json) list"

text \<open>The truth value Python's \<^verbatim>\<open>if v:\<close> gives a value.\<close>

fun truthy :: "json \<Rightarrow> bool" where
  "truthy JNone = False"
| "truthy (JBool b) = b"
| "truthy (JNum n) = (n \<noteq> 0)"
| "truthy (JFloat x) = (x \<noteq> 0)"
| "truthy (JStr s) = (s \<noteq> [])"
| "truthy (JList xs) = (xs \<noteq> [])"
| "truthy (JDict d) = (d \<noteq> [])"

definition dict_get :: "(string \<times> 'v) list \<Rightarrow> string \<Rightarrow> 'v \<Rightarrow> 'v" where
  "dict_get d k dflt = (case map_of d k of Some v \<Rightarrow> v | None \<Rightarrow> dflt)"

text \<open>
  The state of the service manager that the modelled operations read and write: the
  five cache dictionaries, the counters of \<^verbatim>\<open>cache_stats\<close> (one field per key of that
  dictionary), the availability flags and the presence of the two service objects, the
  wall clock, and the log of the calls made to the document store and the search
  index.
\<close>

datatype backend_call =
  Cosmos_get_invoice_statistics
  | Cosmos_list_invoices int
  | Cosmos_search_invoices string
  | Cosmos_get_invoice string
  | Cosmos_save_invoice json
  | Cosmos_update_invoice_status string string
  | Search_search_invoices string
  | Search_index_invoice json
  | Search_update_invoice_status_in_index string string

record manager =
  cache :: "(string \<times> json) list"
  cache_timestamps :: "(string \<times> real) list"
  cache_access_count :: "(string \<times> int) list"
  cache_hit_count :: "(string \<times> int) list"
  cache_miss_count :: "(string \<times> int) list"
  total_requests :: int
  cache_hits :: int
  cache_misses :: int
  evictions :: int
  cleanup_runs :: int
  available_cosmos :: bool
  available_search :: bool
  cosmos_service :: bool
  search_service :: bool
  wall_clock :: real
  backend_log :: "backend_call list"

definition initialize_cache :: "bool \<Rightarrow> bool \<Rightarrow> real \<Rightarrow> manager" where
  "initialize_cache cosmos search now =
     \<lparr>cache = [], cache_timestamps = [], cache_access_count = [], cache_hit_count = [],
      cache_miss_count = [], total_requests = 0, cache_hits = 0, cache_misses = 0,
      evictions = 0, cleanup_runs = 0,
      available_cosmos = cosmos, available_search = search,
      cosmos_service = cosmos, search_service = search,
      wall_clock = now, backend_log = []\<rparr>"

definition cache_ttl :: "(string \<times> int) list" where
  "cache_ttl =
     [(''statistics'', 300), (''invoice_list'', 180), (''search_results'', 120),
      (''invoice_detail'', 600), (''client_data'', 900), (''agent_config'', 3600),
      (''service_status'', 60)]"

definition cache_max_size :: "(string \<times> int) list" where
  "cache_max_size =
     [(''statistics'', 10), (''invoice_list'', 20), (''search_results'', 50),
      (''invoice_detail'', 100), (''client_data'', 200), (''agent_config'', 5),
      (''service_status'', 5)]"

text \<open>\<^verbatim>\<open>cache_key.split("_")[0]\<close>: the text before the first underscore.\<close>

definition split_head :: "string \<Rightarrow> string" where
  "split_head cache_key = takeWhile (\<lambda>c. c \<noteq> CHR ''_'') cache_key"

definition is_cache_valid :: "real \<Rightarrow> string \<Rightarrow> manager \<Rightarrow> bool" where
  "is_cache_valid now cache_key s =
     (case map_of (cache_timestamps s) cache_key of
        None \<Rightarrow> False
      | Some stamp \<Rightarrow>
          (let cache_type = split_head cache_key;
               ttl = dict_get cache_ttl cache_type 300;
               age = now - stamp
           in age < real_of_int ttl))"

text \<open>\<^verbatim>\<open>_get_from_cache\<close> returns the cached value, or None (\<open>JNone\<close>) on a miss.\<close>

definition get_from_cache :: "real \<Rightarrow> string \<Rightarrow> manager \<Rightarrow> json \<times> manager" where
  "get_from_cache now cache_key s =
     (let s1 = s\<lparr>total_requests := total_requests s + 1\<rparr>
      in if is_cache_valid now cache_key s1
         then
           (let s2 = s1\<lparr>cache_access_count :=
                          AList.update cache_key (dict_get (cache_access_count s1) cache_key 0 + 1)
                            (cache_access_count s1),
                        cache_hit_count :=
                          AList.update cache_key (dict_get (cache_hit_count s1) cache_key 0 + 1)
                            (cache_hit_count s1),
                        cache_hits := cache_hits s1 + 1,
                        cache_timestamps := AList.update cache_key now (cache_timestamps s1)\<rparr>
            in (dict_get (cache s2) cache_key JNone, s2))
         else
           (JNone,
            s1\<lparr>cache_miss_count :=
                  AList.update cache_key (dict_get (cache_miss_count s1) cache_key 0 + 1)
                    (cache_miss_count s1),
                cache_misses := cache_misses s1 + 1\<rparr>))"

definition remove_cache_entry :: "string \<Rightarrow> manager \<Rightarrow> manager" where
  "remove_cache_entry cache_key s =
     s\<lparr>cache := AList.delete cache_key (cache s),
       cache_timestamps := AList.delete cache_key (cache_timestamps s),
       cache_access_count := AList.delete cache_key (cache_access_count s),
       cache_hit_count := AList.delete cache_key (cache_hit_count s),
       cache_miss_count := AList.delete cache_key (cache_miss_count s)\<rparr>"

text \<open>
  The list comprehension of \<^verbatim>\<open>_evict_lru_items\<close> reads \<^verbatim>\<open>cache_timestamps[key]\<close> for
  every key of the cache with the prefix: a key without a time stamp raises KeyError.
\<close>

fun timestamps_of :: "(string \<times> real) list \<Rightarrow> string list \<Rightarrow> string + (string \<times> real) list" where
  "timestamps_of stamps [] = Inr []"
| "timestamps_of stamps (key # keys) =
     (case map_of stamps key of
        None \<Rightarrow> Inl (''KeyError: '' @ key)
      | Some stamp \<Rightarrow>
          (case timestamps_of stamps keys of
             Inl e \<Rightarrow> Inl e
           | Inr items \<Rightarrow> Inr ((key, stamp) # items)))"

definition evict_one :: "string \<Rightarrow> manager \<Rightarrow> manager" where
  "evict_one key_to_evict s = (remove_cache_entry key_to_evict s)\<lparr>evictions := evictions s + 1\<rparr>"

definition evict_lru_items :: "string \<Rightarrow> int \<Rightarrow> manager \<Rightarrow> string + manager" where
  "evict_lru_items cache_type count s =
     (case timestamps_of (cache_timestamps s) (filter (prefix cache_type) (map fst (cache s))) of
        Inl e \<Rightarrow> Inl e
      | Inr type_items \<Rightarrow>
          (let sorted_items = sort_key snd type_items;
               victims = take (nat (min count (int (length sorted_items)))) (map fst sorted_items)
           in Inr (fold evict_one victims s)))"

definition set_cache :: "real \<Rightarrow> string \<Rightarrow> json \<Rightarrow> manager \<Rightarrow> string + manager" where
  "set_cache now cache_key data s =
     (let cache_type = split_head cache_key;
          max_size = dict_get cache_max_size cache_type 50;
          current_items = filter (prefix cache_type) (map fst (cache s))
      in case (if int (length current_items) \<ge> max_size
               then evict_lru_items cache_type (int (length current_items) - max_size + 1) s
               else Inr s) of
           Inl e \<Rightarrow> Inl e
         | Inr s1 \<Rightarrow>
             Inr (s1\<lparr>cache := AList.update cache_key data (cache s1),
                     cache_timestamps := AList.update cache_key now (cache_timestamps s1),
                     cache_access_count := AList.update cache_key 1 (cache_access_count s1),
                     cache_hit_count := AList.update cache_key 0 (cache_hit_count s1),
                     cache_miss_count := AList.update cache_key 0 (cache_miss_count s1)\<rparr>))"

text \<open>\<^verbatim>\<open>_clear_cache(pattern)\<close>: \<^verbatim>\<open>if pattern:\<close> is false for None and for the empty string.\<close>

definition clear_cache :: "string option \<Rightarrow> manager \<Rightarrow> manager" where
  "clear_cache pattern s =
     (case pattern of
        Some pat \<Rightarrow>
          if pat \<noteq> []
          then fold remove_cache_entry (filter (py_in pat) (map fst (cache s))) s
          else s\<lparr>cache := [], cache_timestamps := [], cache_access_count := [],
                 cache_hit_count := [], cache_miss_count := []\<rparr>
      | None \<Rightarrow>
          s\<lparr>cache := [], cache_timestamps := [], cache_access_count := [],
            cache_hit_count := [], cache_miss_count := []\<rparr>)"

text \<open>The body of the background sweep (the timer that reschedules it is not modelled).\<close>

definition cleanup_expired_cache :: "real \<Rightarrow> manager \<Rightarrow> manager" where
  "cleanup_expired_cache current_time s =
     (let expired_keys =
            map fst (filter (\<lambda>(cache_key, stamp).
                       current_time - stamp > real_of_int (dict_get cache_ttl (split_head cache_key) 300))
                     (cache_timestamps s));
          s1 = fold remove_cache_entry expired_keys s
      in s1\<lparr>cleanup_runs := cleanup_runs s1 + 1\<rparr>)"


section \<open>The cache-aware operations of \<^verbatim>\<open>ServiceManager\<close>\<close>

text \<open>
  The document store, the search index and the Python library are the environment.
  \<open>respond env n call\<close> is what the \<open>n\<close>-th call to a backend does: the seconds it takes
  and the value it returns (\<open>Inr\<close>) or the message of the exception it raises (\<open>Inl\<close>).
  \<open>md5_hexdigest\<close> is \<^verbatim>\<open>hashlib.md5(text.encode()).hexdigest()\<close>, \<open>py_repr\<close> the text an
  f-string gives a float, a list or a dictionary, \<open>service_status\<close> the dictionary
  \<^verbatim>\<open>get_service_status()\<close> builds (it probes the AI client) and \<open>cache_statistics\<close> the
  one \<^verbatim>\<open>get_cache_statistics()\<close> builds (it holds a floating-point hit rate).
  Every \<^verbatim>\<open>datetime.now()\<close> of an operation reads \<open>wall_clock\<close>; time passes during
  backend calls and between operations.
\<close>

record env =
  respond :: "nat \<Rightarrow> backend_call \<Rightarrow> real \<times> (string + json)"
  md5_hexdigest :: "string \<Rightarrow> string"
  py_repr :: "json \<Rightarrow> string"
  service_status :: "manager \<Rightarrow> (string \<times> json) list"
  cache_statistics :: "manager \<Rightarrow> json"

definition call_backend :: "env \<Rightarrow> backend_call \<Rightarrow> manager \<Rightarrow> (string + json) \<times> manager" where
  "call_backend e c s =
     (let (duration, answer) = respond e (length (backend_log s)) c
      in (answer, s\<lparr>backend_log := backend_log s @ [c], wall_clock := wall_clock s + duration\<rparr>))"

definition advance :: "real \<Rightarrow> manager \<Rightarrow> manager" where
  "advance d s = s\<lparr>wall_clock := wall_clock s + d\<rparr>"

text \<open>Decimal digits of an integer, as an f-string prints it.\<close>

fun str_of_nat :: "nat \<Rightarrow> string" where
  "str_of_nat n =
     (if n < 10 then [''0123456789'' ! n]
      else str_of_nat (n div 10) @ [''0123456789'' ! (n mod 10)])"

definition str_of_int :: "int \<Rightarrow> string" where
  "str_of_int i = (if i < 0 then CHR ''-'' # str_of_nat (nat (- i)) else str_of_nat (nat i))"

fun py_str :: "env \<Rightarrow> json \<Rightarrow> string" where
  "py_str e JNone = ''None''"
| "py_str e (JBool b) = (if b then ''True'' else ''False'')"
| "py_str e (JNum n) = str_of_int n"
| "py_str e (JStr s) = s"
| "py_str e v = py_repr e v"

text \<open>\<^verbatim>\<open>v.get(k, default)\<close>: only a dictionary has the method.\<close>

fun py_get :: "json \<Rightarrow> string \<Rightarrow> json \<Rightarrow> string + json" where
  "py_get (JDict d) k dflt = Inr (dict_get d k dflt)"
| "py_get v k dflt = Inl ''AttributeError: object has no attribute get''"

text \<open>\<^verbatim>\<open>name.lower().replace(" ", "_")\<close>\<close>

definition client_key_of :: "string \<Rightarrow> string" where
  "client_key_of client_name =
     map (\<lambda>c. if c = CHR '' '' then CHR ''_'' else c) (str_lower client_name)"

text \<open>
  The opening of every read operation:
  \<^verbatim>\<open>if not force_refresh: cached = self._get_from_cache(key); if cached: return cached\<close>.
  The result is \<open>Some cached\<close> when the operation returns the cached value.
\<close>

definition cached_read :: "bool \<Rightarrow> string \<Rightarrow> manager \<Rightarrow> json option \<times> manager" where
  "cached_read force_refresh cache_key s =
     (if \<not> force_refresh
      then (let (cached, s1) = get_from_cache (wall_clock s) cache_key s
            in if truthy cached then (Some cached, s1) else (None, s1))
      else (None, s))"

text \<open>The close of every read operation: \<^verbatim>\<open>self._set_cache(key, value); return value\<close>.\<close>

definition store_and_return :: "string \<Rightarrow> json \<Rightarrow> manager \<Rightarrow> (string + json) \<times> manager" where
  "store_and_return cache_key v s =
     (case set_cache (wall_clock s) cache_key v s of
        Inl e \<Rightarrow> (Inl e, s)
      | Inr s' \<Rightarrow> (Inr v, s'))"

definition degraded_statistics :: json where
  "degraded_statistics =
     JDict [(''total_invoices'', JNum 0), (''status_breakdown'', JList []),
            (''total_outstanding_amount'', JFloat 0),
            (''error'', JStr ''CosmosDB service not available'')]"

definition get_statistics :: "env \<Rightarrow> bool \<Rightarrow> manager \<Rightarrow> (string + json) \<times> manager" where
  "get_statistics e force_refresh s =
     (let cache_key = ''statistics_main''
      in case cached_read force_refresh cache_key s of
           (Some cached_stats, s1) \<Rightarrow> (Inr cached_stats, s1)
         | (None, s1) \<Rightarrow>
             if \<not> available_cosmos s1 \<or> \<not> cosmos_service s1 then (Inr degraded_statistics, s1)
             else (case call_backend e Cosmos_get_invoice_statistics s1 of
                     (Inl err, s2) \<Rightarrow> (Inl err, s2)
                   | (Inr stats, s2) \<Rightarrow> store_and_return cache_key stats s2))"

definition list_invoices :: "env \<Rightarrow> int \<Rightarrow> bool \<Rightarrow> manager \<Rightarrow> (string + json) \<times> manager" where
  "list_invoices e limit force_refresh s =
     (let cache_key = ''invoice_list_'' @ str_of_int limit
      in case cached_read force_refresh cache_key s of
           (Some cached_list, s1) \<Rightarrow> (Inr cached_list, s1)
         | (None, s1) \<Rightarrow>
             if \<not> available_cosmos s1 \<or> \<not> cosmos_service s1 then (Inr (JList []), s1)
             else (case call_backend e (Cosmos_list_invoices limit) s1 of
                     (Inl err, s2) \<Rightarrow> (Inl err, s2)
                   | (Inr invoices, s2) \<Rightarrow> store_and_return cache_key invoices s2))"

text \<open>
  \<^verbatim>\<open>search_invoices\<close>: both backend calls sit in a \<^verbatim>\<open>try\<close> whose \<^verbatim>\<open>except\<close> only prints,
  so an exception leaves \<^verbatim>\<open>results\<close> as it was.
\<close>

definition search_cache_key :: "env \<Rightarrow> string \<Rightarrow> string" where
  "search_cache_key e query = ''search_results_'' @ take 8 (md5_hexdigest e (str_lower query))"

definition search_invoices :: "env \<Rightarrow> string \<Rightarrow> bool \<Rightarrow> manager \<Rightarrow> (string + json) \<times> manager" where
  "search_invoices e query force_refresh s =
     (let cache_key = search_cache_key e query
      in case cached_read force_refresh cache_key s of
           (Some cached_results, s1) \<Rightarrow> (Inr cached_results, s1)
         | (None, s1) \<Rightarrow>
             (let results0 = JList [];
                  (results1, s2) =
                    (if available_search s1 \<and> search_service s1
                     then (case call_backend e (Search_search_invoices query) s1 of
                             (Inl err, s') \<Rightarrow> (results0, s')
                           | (Inr found, s') \<Rightarrow> (found, s'))
                     else (results0, s1));
                  (results2, s3) =
                    (if \<not> truthy results1 \<and> available_cosmos s2 \<and> cosmos_service s2
                     then (case call_backend e (Cosmos_search_invoices query) s2 of
                             (Inl err, s') \<Rightarrow> (results1, s')
                           | (Inr found, s') \<Rightarrow> (found, s'))
                     else (results1, s2))
              in store_and_return cache_key results2 s3))"

definition get_invoice :: "env \<Rightarrow> string \<Rightarrow> bool \<Rightarrow> manager \<Rightarrow> (string + json) \<times> manager" where
  "get_invoice e invoice_number force_refresh s =
     (let cache_key = ''invoice_detail_'' @ invoice_number
      in case cached_read force_refresh cache_key s of
           (Some cached_invoice, s1) \<Rightarrow> (Inr cached_invoice, s1)
         | (None, s1) \<Rightarrow>
             if \<not> available_cosmos s1 \<or> \<not> cosmos_service s1 then (Inr JNone, s1)
             else (case call_backend e (Cosmos_get_invoice invoice_number) s1 of
                     (Inl err, s2) \<Rightarrow> (Inl err, s2)
                   | (Inr invoice, s2) \<Rightarrow> store_and_return cache_key invoice s2))"

text \<open>
  The loop of \<^verbatim>\<open>get_client_invoices\<close> over the search results: what a \<^verbatim>\<open>for\<close> iterates
  over for each kind of value, and the filter on the client's name, which raises
  AttributeError on a document of another shape.
\<close>

fun py_iter :: "json \<Rightarrow> string + json list" where
  "py_iter (JList xs) = Inr xs"
| "py_iter (JDict d) = Inr (map (\<lambda>(k, v). JStr k) d)"
| "py_iter (JStr s) = Inr (map (\<lambda>c. JStr [c]) s)"
| "py_iter v = Inl ''TypeError: object is not iterable''"

definition invoice_client_name :: "json \<Rightarrow> string + string" where
  "invoice_client_name invoice =
     (case py_get invoice ''invoice_data'' (JDict []) of
        Inl err \<Rightarrow> Inl err
      | Inr invoice_data \<Rightarrow>
          (case py_get invoice_data ''client'' (JDict []) of
             Inl err \<Rightarrow> Inl err
           | Inr client \<Rightarrow>
               (case py_get client ''name'' (JStr []) of
                  Inl err \<Rightarrow> Inl err
                | Inr (JStr invoice_client) \<Rightarrow> Inr (str_lower invoice_client)
                | Inr other \<Rightarrow> Inl ''AttributeError: object has no attribute lower'')))"

fun filter_client :: "string \<Rightarrow> json list \<Rightarrow> string + json list" where
  "filter_client client_name [] = Inr []"
| "filter_client client_name (invoice # invoices) =
     (case invoice_client_name invoice of
        Inl err \<Rightarrow> Inl err
      | Inr lowered \<Rightarrow>
          (case filter_client client_name invoices of
             Inl err \<Rightarrow> Inl err
           | Inr rest \<Rightarrow>
               Inr (if lowered = str_lower client_name then invoice # rest else rest)))"

definition get_client_invoices ::
  "env \<Rightarrow> string \<Rightarrow> bool \<Rightarrow> manager \<Rightarrow> (string + json) \<times> manager" where
  "get_client_invoices e client_name force_refresh s =
     (let cache_key = ''client_data_'' @ client_key_of client_name
      in case cached_read force_refresh cache_key s of
           (Some cached_invoices, s1) \<Rightarrow> (Inr cached_invoices, s1)
         | (None, s1) \<Rightarrow>
             (case search_invoices e client_name False s1 of
                (Inl err, s2) \<Rightarrow> (Inl err, s2)
              | (Inr invoices, s2) \<Rightarrow>
                  (case py_iter invoices of
                     Inl err \<Rightarrow> (Inl err, s2)
                   | Inr items \<Rightarrow>
                       (case filter_client client_name items of
                          Inl err \<Rightarrow> (Inl err, s2)
                        | Inr client_invoices \<Rightarrow>
                            store_and_return cache_key (JList client_invoices) s2))))"

definition get_service_status_cached :: "env \<Rightarrow> bool \<Rightarrow> manager \<Rightarrow> (string + json) \<times> manager" where
  "get_service_status_cached e force_refresh s =
     (let cache_key = ''service_status_main''
      in case cached_read force_refresh cache_key s of
           (Some cached_status, s1) \<Rightarrow> (Inr cached_status, s1)
         | (None, s1) \<Rightarrow>
             (let status = JDict (AList.update ''cache_statistics'' (cache_statistics e s1)
                                    (service_status e s1))
              in store_and_return cache_key status s1))"


subsection \<open>Writes and their cache invalidation\<close>

text \<open>
  \<^verbatim>\<open>save_invoice\<close>: both backend calls sit in a \<^verbatim>\<open>try\<close> whose \<^verbatim>\<open>except\<close> appends a
  warning. The three entries of the result dictionary are the components of
  \<open>save_result\<close>.
\<close>

record save_result =
  cosmos_saved :: json
  search_indexed :: json
  storage_warnings :: "string list"

definition save_result_json :: "save_result \<Rightarrow> json" where
  "save_result_json r =
     JDict [(''cosmos_saved'', cosmos_saved r), (''search_indexed'', search_indexed r),
            (''storage_warnings'', JList (map JStr (storage_warnings r)))]"

text \<open>The invalidation block: \<open>Some err\<close> is the exception it raises, with the state it
  has reached by then.\<close>

definition invalidate_after_save :: "env \<Rightarrow> json \<Rightarrow> manager \<Rightarrow> string option \<times> manager" where
  "invalidate_after_save e invoice_data s =
     (case py_get invoice_data ''invoice_number'' JNone of
        Inl err \<Rightarrow> (Some err, s)
      | Inr invoice_number \<Rightarrow>
          (case py_get invoice_data ''client'' (JDict []) of
             Inl err \<Rightarrow> (Some err, s)
           | Inr client \<Rightarrow>
               (case py_get client ''name'' (JStr []) of
                  Inl err \<Rightarrow> (Some err, s)
                | Inr client_name \<Rightarrow>
                    (let s1 = clear_cache (Some ''statistics'') s;
                         s2 = clear_cache (Some ''invoice_list'') s1;
                         s3 = (if truthy invoice_number
                               then remove_cache_entry (''invoice_detail_'' @ py_str e invoice_number) s2
                               else s2)
                     in if truthy client_name
                        then (case client_name of
                                JStr name \<Rightarrow>
                                  (None, remove_cache_entry (''client_data_'' @ client_key_of name) s3)
                              | other \<Rightarrow>
                                  (Some ''AttributeError: object has no attribute lower'', s3))
                        else (None, s3)))))"

definition save_invoice :: "env \<Rightarrow> json \<Rightarrow> manager \<Rightarrow> (string + save_result) \<times> manager" where
  "save_invoice e invoice_data s =
     (let result0 = \<lparr>cosmos_saved = JBool False, search_indexed = JBool False,
                      storage_warnings = []\<rparr>;
          (result1, s1) =
            (if available_cosmos s \<and> cosmos_service s
             then (case call_backend e (Cosmos_save_invoice invoice_data) s of
                     (Inl err, s') \<Rightarrow>
                       (result0\<lparr>storage_warnings :=
                          storage_warnings result0 @ [''Failed to save to CosmosDB'']\<rparr>, s')
                   | (Inr saved, s') \<Rightarrow> (result0\<lparr>cosmos_saved := saved\<rparr>, s'))
             else (result0, s));
          (result2, s2) =
            (if available_search s1 \<and> search_service s1
             then (case call_backend e (Search_index_invoice invoice_data) s1 of
                     (Inl err, s') \<Rightarrow>
                       (result1\<lparr>storage_warnings :=
                          storage_warnings result1 @ [''Failed to index in Azure Search'']\<rparr>, s')
                   | (Inr indexed, s') \<Rightarrow> (result1\<lparr>search_indexed := indexed\<rparr>, s'))
             else (result1, s1))
      in if truthy (cosmos_saved result2)
         then (case invalidate_after_save e invoice_data s2 of
                 (Some err, s3) \<Rightarrow> (Inl err, s3)
               | (None, s3) \<Rightarrow> (Inr result2, s3))
         else (Inr result2, s2))"

text \<open>
  \<^verbatim>\<open>update_invoice_status\<close>: neither backend call is guarded, an exception of either
  leaves the operation before the invalidation.
\<close>

definition invalidate_after_status_update :: "string \<Rightarrow> manager \<Rightarrow> manager" where
  "invalidate_after_status_update invoice_number s =
     (let s1 = clear_cache (Some ''statistics'') s;
          s2 = remove_cache_entry (''invoice_detail_'' @ invoice_number) s1;
          search_keys = filter (prefix ''search_results'') (map fst (cache s2))
      in fold remove_cache_entry search_keys s2)"

definition update_invoice_status ::
  "env \<Rightarrow> string \<Rightarrow> string \<Rightarrow> manager \<Rightarrow> (string + json) \<times> manager" where
  "update_invoice_status e invoice_number status s =
     (case (if available_cosmos s \<and> cosmos_service s
            then call_backend e (Cosmos_update_invoice_status invoice_number status) s
            else (Inr (JBool False), s)) of
        (Inl err, s1) \<Rightarrow> (Inl err, s1)
      | (Inr success, s1) \<Rightarrow>
          (case (if available_search s1 \<and> search_service s1
                 then call_backend e (Search_update_invoice_status_in_index invoice_number status) s1
                 else (Inr JNone, s1)) of
             (Inl err, s2) \<Rightarrow> (Inl err, s2)
           | (Inr ignored, s2) \<Rightarrow>
               if truthy success
               then (Inr success, invalidate_after_status_update invoice_number s2)
               else (Inr success, s2)))"


section \<open>Properties of the cache store\<close>

lemma fold_evict_one_counters:
  "cache_hits (fold evict_one ks s) = cache_hits s \<and>
   cache_misses (fold evict_one ks s) = cache_misses s \<and>
   total_requests (fold evict_one ks s) = total_requests s"
  by (induction ks arbitrary: s) (simp_all add: evict_one_def remove_cache_entry_def)

lemma evict_lru_items_counters:
  "evict_lru_items cache_type n s = Inr s1 \<Longrightarrow>
   cache_hits s1 = cache_hits s \<and> cache_misses s1 = cache_misses s \<and>
   total_requests s1 = total_requests s"
  by (auto simp: evict_lru_items_def Let_def fold_evict_one_counters split: sum.splits)

lemma set_cache_Inr:
  assumes "set_cache T key v s = Inr s'"
  obtains s1 where
    "s' = s1\<lparr>cache := AList.update key v (cache s1),
             cache_timestamps := AList.update key T (cache_timestamps s1),
             cache_access_count := AList.update key 1 (cache_access_count s1),
             cache_hit_count := AList.update key 0 (cache_hit_count s1),
             cache_miss_count := AList.update key 0 (cache_miss_count s1)\<rparr>"
    and "s1 = s \<or> (\<exists>n. evict_lru_items (split_head key) n s = Inr s1)"
  using assms unfolding set_cache_def Let_def
  by (auto split: sum.splits if_splits)

lemma set_cache_lookup:
  assumes "set_cache T key v s = Inr s'"
  shows "map_of (cache s') key = Some v" and "map_of (cache_timestamps s') key = Some T"
    and "cache_hits s' = cache_hits s" and "cache_misses s' = cache_misses s"
proof -
  from assms obtain s1 where
    s': "s' = s1\<lparr>cache := AList.update key v (cache s1),
             cache_timestamps := AList.update key T (cache_timestamps s1),
             cache_access_count := AList.update key 1 (cache_access_count s1),
             cache_hit_count := AList.update key 0 (cache_hit_count s1),
             cache_miss_count := AList.update key 0 (cache_miss_count s1)\<rparr>"
    and s1: "s1 = s \<or> (\<exists>n. evict_lru_items (split_head key) n s = Inr s1)"
    by (rule set_cache_Inr)
  from s' show "map_of (cache s') key = Some v" "map_of (cache_timestamps s') key = Some T"
    by (simp_all add: AList.update_conv')
  from s1 have "cache_hits s1 = cache_hits s \<and> cache_misses s1 = cache_misses s"
    using evict_lru_items_counters by blast
  with s' show "cache_hits s' = cache_hits s" "cache_misses s' = cache_misses s" by simp_all
qed

lemma statistics_ttl: "dict_get cache_ttl ''statistics'' 300 = 300"
  by (simp add: dict_get_def cache_ttl_def)

lemma get_from_cache_fresh:
  assumes "map_of (cache s) key = Some v" and "map_of (cache_timestamps s) key = Some T"
    and "T' - T < real_of_int (dict_get cache_ttl (split_head key) 300)"
  shows "get_from_cache T' key s =
     (v, s\<lparr>total_requests := total_requests s + 1,
           cache_access_count :=
             AList.update key (dict_get (cache_access_count s) key 0 + 1) (cache_access_count s),
           cache_hit_count :=
             AList.update key (dict_get (cache_hit_count s) key 0 + 1) (cache_hit_count s),
           cache_hits := cache_hits s + 1,
           cache_timestamps := AList.update key T' (cache_timestamps s)\<rparr>)"
  using assms by (simp add: get_from_cache_def is_cache_valid_def Let_def dict_get_def)

lemma get_from_cache_stale:
  assumes "map_of (cache_timestamps s) key = Some T"
    and "real_of_int (dict_get cache_ttl (split_head key) 300) \<le> T' - T"
  shows "get_from_cache T' key s =
     (JNone, s\<lparr>total_requests := total_requests s + 1,
           cache_miss_count :=
             AList.update key (dict_get (cache_miss_count s) key 0 + 1) (cache_miss_count s),
           cache_misses := cache_misses s + 1\<rparr>)"
  using assms by (simp add: get_from_cache_def is_cache_valid_def Let_def)

text \<open>
  C1 (as the code has it, for the statistics category). For a key whose text before
  the first underscore is \<open>statistics\<close> (TTL 300 s): a value stored by \<open>set_cache\<close> at
  time \<open>T\<close> and read next at time \<open>T'\<close> is returned when \<open>T' - T < 300\<close>, the read counts
  as a hit and moves the entry's time stamp to \<open>T'\<close>, so the window starts again at
  every successful read; when \<open>T' - T \<ge> 300\<close> the read returns None and counts as a
  miss, and the entry stays in the dictionaries until it is swept or evicted.
\<close>

theorem C1_statistics_ttl:
  "split_head key = ''statistics'' \<and> set_cache T key v s = Inr s' \<longrightarrow>
     (T' - T < 300 \<longrightarrow>
        fst (get_from_cache T' key s') = v \<and>
        cache_hits (snd (get_from_cache T' key s')) = cache_hits s' + 1 \<and>
        map_of (cache_timestamps (snd (get_from_cache T' key s'))) key = Some T') \<and>
     (300 \<le> T' - T \<longrightarrow>
        fst (get_from_cache T' key s') = JNone \<and>
        cache_misses (snd (get_from_cache T' key s')) = cache_misses s' + 1 \<and>
        cache (snd (get_from_cache T' key s')) = cache s' \<and>
        cache_timestamps (snd (get_from_cache T' key s')) = cache_timestamps s')"
proof
  assume h: "split_head key = ''statistics'' \<and> set_cache T key v s = Inr s'"
  then have c: "map_of (cache s') key = Some v" and t: "map_of (cache_timestamps s') key = Some T"
    using set_cache_lookup by blast+
  from h have ttl: "dict_get cache_ttl (split_head key) 300 = 300" by (simp add: statistics_ttl)
  have fresh: "T' - T < 300 \<longrightarrow>
        fst (get_from_cache T' key s') = v \<and>
        cache_hits (snd (get_from_cache T' key s')) = cache_hits s' + 1 \<and>
        map_of (cache_timestamps (snd (get_from_cache T' key s'))) key = Some T'"
    using get_from_cache_fresh [OF c t, of T'] ttl by (simp add: AList.update_conv')
  have stale: "300 \<le> T' - T \<longrightarrow>
        fst (get_from_cache T' key s') = JNone \<and>
        cache_misses (snd (get_from_cache T' key s')) = cache_misses s' + 1 \<and>
        cache (snd (get_from_cache T' key s')) = cache s' \<and>
        cache_timestamps (snd (get_from_cache T' key s')) = cache_timestamps s'"
    using get_from_cache_stale [OF t, of T'] ttl by simp
  from fresh stale show "(T' - T < 300 \<longrightarrow>
        fst (get_from_cache T' key s') = v \<and>
        cache_hits (snd (get_from_cache T' key s')) = cache_hits s' + 1 \<and>
        map_of (cache_timestamps (snd (get_from_cache T' key s'))) key = Some T') \<and>
     (300 \<le> T' - T \<longrightarrow>
        fst (get_from_cache T' key s') = JNone \<and>
        cache_misses (snd (get_from_cache T' key s')) = cache_misses s' + 1 \<and>
        cache (snd (get_from_cache T' key s')) = cache s' \<and>
        cache_timestamps (snd (get_from_cache T' key s')) = cache_timestamps s')"
    by blast
qed

text \<open>A fresh cache in which \<open>statistics_main\<close> was stored at time 0.\<close>

definition stored_statistics :: manager where
  "stored_statistics =
     (case set_cache 0 ''statistics_main'' (JNum 1) (initialize_cache True True 0) of
        Inr s \<Rightarrow> s | Inl e \<Rightarrow> initialize_cache True True 0)"

lemma stored_statistics_eq:
  "set_cache 0 ''statistics_main'' (JNum 1) (initialize_cache True True 0) = Inr stored_statistics"
  "cache_hits stored_statistics = 0" "cache_misses stored_statistics = 0"
  by (simp_all add: stored_statistics_def set_cache_def initialize_cache_def split_head_def
      dict_get_def cache_max_size_def Let_def)

theorem C1_statistics_ttl_witness:
  "fst (get_from_cache 299 ''statistics_main'' stored_statistics) = JNum 1 \<and>
   cache_hits (snd (get_from_cache 299 ''statistics_main'' stored_statistics)) = 1 \<and>
   fst (get_from_cache 300 ''statistics_main'' stored_statistics) = JNone \<and>
   cache_misses (snd (get_from_cache 300 ''statistics_main'' stored_statistics)) = 1"
  using C1_statistics_ttl [of "''statistics_main''" 0 "JNum 1" "initialize_cache True True 0"
      stored_statistics 299]
    C1_statistics_ttl [of "''statistics_main''" 0 "JNum 1" "initialize_cache True True 0"
      stored_statistics 300]
  by (simp add: stored_statistics_eq split_head_def)

text \<open>
  The claim permits intervening reads and fails with one: the value stored at time 0
  is read at 200 (a hit, which refreshes the time stamp) and is still returned at 400,
  after more than the 300 s of its category.
\<close>

theorem C1_intervening_read_counterexample:
  "fst (get_from_cache 200 ''statistics_main'' stored_statistics) = JNum 1 \<and>
   fst (get_from_cache 400 ''statistics_main''
          (snd (get_from_cache 200 ''statistics_main'' stored_statistics))) = JNum 1"
  by (simp add: stored_statistics_def set_cache_def initialize_cache_def split_head_def
      dict_get_def cache_max_size_def cache_ttl_def Let_def get_from_cache_def is_cache_valid_def)

text \<open>A sequence of \<open>set_cache\<close> calls at one time, stopping at the first exception.\<close>

fun set_all :: "real \<Rightarrow> (string \<times> json) list \<Rightarrow> manager \<Rightarrow> string + manager" where
  "set_all now [] s = Inr s"
| "set_all now ((k, v) # kvs) s = (case set_cache now k v s of Inl e \<Rightarrow> Inl e | Inr s' \<Rightarrow> set_all now kvs s')"

definition invoice_list_keys :: "string list" where
  "invoice_list_keys = map (\<lambda>i. ''invoice_list_'' @ str_of_int i) [1..21]"

text \<open>
  C4 fails for the invoice_list category (maximum size 20): \<open>set_cache\<close> looks the
  maximum up under the text before the first underscore, \<open>invoice\<close>, which is not a key
  of \<open>cache_max_size\<close>, so the default 50 applies. Storing the 21 keys
  \<open>invoice_list_1\<close>, ..., \<open>invoice_list_21\<close> in a fresh cache keeps all 21 and evicts
  nothing.
\<close>

theorem C4_invoice_list_exceeds_max_size:
  "(case set_all 0 (map (\<lambda>k. (k, JList [])) invoice_list_keys) (initialize_cache True True 0) of
      Inl e \<Rightarrow> False
    | Inr s \<Rightarrow> map fst (cache s) = invoice_list_keys \<and> length invoice_list_keys = 21 \<and> evictions s = 0)"
  by code_simp


section \<open>Properties of the cache-aware operations\<close>

text \<open>
  The two dictionaries \<open>cache\<close> and \<open>cache_timestamps\<close> hold the same keys in every
  state the operations reach from \<open>initialize_cache\<close>: every operation writes or deletes
  a key in both. On such a state \<open>set_cache\<close> never raises.
\<close>

definition cache_keys :: "manager \<Rightarrow> string list" where
  "cache_keys s = map fst (cache s)"

definition cache_wf :: "manager \<Rightarrow> bool" where
  "cache_wf s \<longleftrightarrow> fst ` set (cache s) = fst ` set (cache_timestamps s)"

lemma cache_wf_init: "cache_wf (initialize_cache c se now)"
  by (simp add: cache_wf_def initialize_cache_def)

lemma set_delete: "fst ` set (AList.delete k al) = fst ` set al - {k}"
  using AList.delete_keys [of k al] by (metis set_map set_removeAll)

lemma cache_wf_remove: "cache_wf s \<Longrightarrow> cache_wf (remove_cache_entry k s)"
  by (simp add: cache_wf_def remove_cache_entry_def set_delete)

lemma cache_wf_fold_remove: "cache_wf s \<Longrightarrow> cache_wf (fold remove_cache_entry ks s)"
  by (induction ks arbitrary: s) (simp_all add: cache_wf_remove)

lemma cache_wf_evict_one: "cache_wf s \<Longrightarrow> cache_wf (evict_one k s)"
  using cache_wf_remove [of s k] by (simp add: cache_wf_def evict_one_def)

lemma cache_wf_fold_evict: "cache_wf s \<Longrightarrow> cache_wf (fold evict_one ks s)"
  by (induction ks arbitrary: s) (simp_all add: cache_wf_evict_one)

lemma timestamps_of_total:
  "set ks \<subseteq> fst ` set stamps \<Longrightarrow> \<exists>items. timestamps_of stamps ks = Inr items \<and> map fst items = ks"
proof (induction ks)
  case Nil
  then show ?case by simp
next
  case (Cons k ks)
  then obtain items where i: "timestamps_of stamps ks = Inr items" "map fst items = ks" by auto
  from Cons.prems have "k \<in> fst ` set stamps" by simp
  then obtain t where "map_of stamps k = Some t"
    by (metis map_of_eq_None_iff not_Some_eq)
  with i show ?case by simp
qed

lemma evict_lru_items_total:
  assumes "cache_wf s"
  shows "\<exists>s1. evict_lru_items cache_type n s = Inr s1 \<and> cache_wf s1"
proof -
  have "set (filter (prefix cache_type) (map fst (cache s))) \<subseteq> fst ` set (cache_timestamps s)"
    using assms by (auto simp: cache_wf_def)
  from timestamps_of_total [OF this] obtain items where
    "timestamps_of (cache_timestamps s) (filter (prefix cache_type) (map fst (cache s))) = Inr items"
    by blast
  then show ?thesis
    using assms by (simp add: evict_lru_items_def Let_def cache_wf_fold_evict)
qed

lemma set_cache_total:
  assumes "cache_wf s"
  shows "\<exists>s'. set_cache T key v s = Inr s' \<and> cache_wf s'"
proof -
  let ?n = "int (length (filter (prefix (split_head key)) (map fst (cache s))))"
  let ?m = "dict_get cache_max_size (split_head key) 50"
  obtain s1 where s1: "(if ?m \<le> ?n then evict_lru_items (split_head key) (?n - ?m + 1) s else Inr s) = Inr s1"
      "cache_wf s1"
    using evict_lru_items_total [OF assms, of "split_head key" "?n - ?m + 1"] assms
    by (cases "?m \<le> ?n") auto
  from s1(2) have "cache_wf (s1\<lparr>cache := AList.update key v (cache s1),
             cache_timestamps := AList.update key T (cache_timestamps s1),
             cache_access_count := AList.update key 1 (cache_access_count s1),
             cache_hit_count := AList.update key 0 (cache_hit_count s1),
             cache_miss_count := AList.update key 0 (cache_miss_count s1)\<rparr>)"
    by (simp add: cache_wf_def AList.dom_update)
  with s1(1) show ?thesis
    unfolding set_cache_def Let_def by simp
qed

text \<open>
  What \<open>set_cache\<close> does bound. It looks the maximum size up under the text before the
  first underscore of the key and counts the keys that start with that text, so after
  a store the keys sharing that text are at most the maximum found under it (the default
  50 when the text is not a key of \<open>cache_max_size\<close>), and when the limit was reached it
  has evicted the count of such keys minus the maximum plus one. \<open>category_count\<close>
  counts the keys with a given text before the first underscore, \<open>prefix_count\<close> the
  keys that start with a given text, as \<^verbatim>\<open>_set_cache\<close> does.
\<close>

definition category_count :: "string \<Rightarrow> manager \<Rightarrow> nat" where
  "category_count cache_type s = length (filter (\<lambda>k. split_head k = cache_type) (cache_keys s))"

definition prefix_count :: "string \<Rightarrow> manager \<Rightarrow> nat" where
  "prefix_count cache_type s = length (filter (prefix cache_type) (cache_keys s))"

lemma split_head_prefix: "prefix (split_head k) k"
  unfolding split_head_def by (metis prefixI takeWhile_dropWhile_id)

lemma category_le_prefix: "category_count t s \<le> prefix_count t s"
proof -
  have "filter (\<lambda>k. split_head k = t) (cache_keys s)
          = filter (\<lambda>k. split_head k = t) (filter (prefix t) (cache_keys s))"
    using split_head_prefix by (auto intro!: filter_cong simp: filter_filter)
  then show ?thesis
    unfolding category_count_def prefix_count_def by (metis length_filter_le)
qed

lemma cache_keys_fold_evict:
  "cache_keys (fold evict_one ks s) = filter (\<lambda>k. k \<notin> set ks) (cache_keys s)"
proof (induction ks arbitrary: s)
  case Nil
  then show ?case by simp
next
  case (Cons k ks)
  have k1: "cache_keys (evict_one k s) = removeAll k (cache_keys s)"
    by (simp add: evict_one_def cache_keys_def remove_cache_entry_def AList.delete_keys)
  have "filter (\<lambda>x. x \<notin> set ks) (removeAll k xs) = filter (\<lambda>x. x \<notin> set (k # ks)) xs" for xs
    by (induction xs) auto
  then show ?case by (simp add: Cons.IH k1)
qed

lemma evictions_fold_evict: "evictions (fold evict_one ks s) = evictions s + int (length ks)"
  by (induction ks arbitrary: s) (simp_all add: evict_one_def remove_cache_entry_def)

lemma length_filter_removed:
  assumes "distinct xs" and "distinct vs" and "set vs \<subseteq> set xs"
  shows "length (filter (\<lambda>k. k \<notin> set vs) xs) = length xs - length vs"
proof -
  have "set (filter (\<lambda>k. k \<notin> set vs) xs) = set xs - set vs" by auto
  moreover have "distinct (filter (\<lambda>k. k \<notin> set vs) xs)" using assms(1) by simp
  ultimately have "length (filter (\<lambda>k. k \<notin> set vs) xs) = card (set xs - set vs)"
    by (metis distinct_card)
  also have "\<dots> = card (set xs) - card (set vs)"
    using assms(3) by (simp add: card_Diff_subset)
  finally show ?thesis using assms(1,2) by (simp add: distinct_card)
qed

lemma evict_lru_items_count:
  assumes "cache_wf s" and "distinct (cache_keys s)" and "0 < n"
    and "n \<le> int (prefix_count t s)"
  obtains s1 where "evict_lru_items t n s = Inr s1"
    and "prefix_count t s1 = prefix_count t s - nat n"
    and "evictions s1 = evictions s + n"
    and "cache_wf s1" and "distinct (cache_keys s1)"
    and "\<exists>vs. cache_keys s1 = filter (\<lambda>k. k \<notin> set vs) (cache_keys s)"
proof -
  let ?ks = "filter (prefix t) (map fst (cache s))"
  have "set ?ks \<subseteq> fst ` set (cache_timestamps s)"
    using assms(1) by (auto simp: cache_wf_def)
  from timestamps_of_total [OF this] obtain items where
    it: "timestamps_of (cache_timestamps s) ?ks = Inr items" "map fst items = ?ks"
    by blast
  let ?vs = "take (nat (min n (int (length (sort_key snd items))))) (map fst (sort_key snd items))"
  let ?s1 = "fold evict_one ?vs s"
  have ev: "evict_lru_items t n s = Inr ?s1"
    using it(1) by (simp add: evict_lru_items_def Let_def)
  have len_items: "length items = prefix_count t s"
    using it(2) by (metis cache_keys_def length_map prefix_count_def)
  have d_ks: "distinct ?ks" using assms(2) by (simp add: cache_keys_def)
  have d_items: "distinct (map fst (sort_key snd items))"
  proof -
    from d_ks it(2) have "distinct (map fst items)" by simp
    then have "distinct items" "inj_on fst (set items)" by (simp_all add: distinct_map)
    then show ?thesis by (simp add: distinct_map)
  qed
  have s_items: "set (map fst (sort_key snd items)) = set ?ks"
    using it(2) by (metis set_map set_sort)
  have lv: "length ?vs = nat n"
    using assms(3,4) len_items by simp
  have dv: "distinct ?vs" using d_items by (rule distinct_take)
  have sv: "set ?vs \<subseteq> set ?ks" using s_items by (metis set_take_subset)
  have keys1: "cache_keys ?s1 = filter (\<lambda>k. k \<notin> set ?vs) (cache_keys s)"
    by (rule cache_keys_fold_evict)
  have "filter (prefix t) (cache_keys ?s1) = filter (\<lambda>k. k \<notin> set ?vs) (filter (prefix t) (cache_keys s))"
    unfolding keys1 by (simp add: filter_filter conj_commute)
  then have "prefix_count t ?s1 = length (filter (\<lambda>k. k \<notin> set ?vs) ?ks)"
    by (simp add: prefix_count_def cache_keys_def)
  also have "\<dots> = length ?ks - length ?vs"
    by (rule length_filter_removed [OF d_ks dv sv])
  finally have pc: "prefix_count t ?s1 = prefix_count t s - nat n"
    using lv by (simp add: prefix_count_def cache_keys_def)
  have evs: "evictions ?s1 = evictions s + n"
    using evictions_fold_evict [of ?vs s] lv assms(3) by simp
  have wf1: "cache_wf ?s1" by (rule cache_wf_fold_evict [OF assms(1)])
  have d1: "distinct (cache_keys ?s1)" unfolding keys1 using assms(2) by simp
  from keys1 have "\<exists>vs. cache_keys ?s1 = filter (\<lambda>k. k \<notin> set vs) (cache_keys s)" by blast
  with ev pc evs wf1 d1 that show ?thesis by blast
qed


lemma max_size_pos: "1 \<le> dict_get cache_max_size t 50"
  by (simp add: dict_get_def cache_max_size_def)

lemma cache_keys_update:
  "map fst (AList.update k v al) = (if k \<in> fst ` set al then map fst al else map fst al @ [k])"
  by (simp add: AList.update_keys)

lemma set_cache_bounded:
  assumes "cache_wf s" and "distinct (cache_keys s)"
  obtains s' where "set_cache T key v s = Inr s'"
    and "cache_wf s'" and "distinct (cache_keys s')"
    and "int (prefix_count (split_head key) s') \<le> dict_get cache_max_size (split_head key) 50"
    and "\<And>t. t \<noteq> split_head key \<Longrightarrow> category_count t s' \<le> category_count t s"
    and "evictions s' = evictions s +
           (if dict_get cache_max_size (split_head key) 50 \<le> int (prefix_count (split_head key) s)
            then int (prefix_count (split_head key) s) - dict_get cache_max_size (split_head key) 50 + 1
            else 0)"
proof -
  let ?t = "split_head key"
  let ?n = "int (length (filter (prefix ?t) (map fst (cache s))))"
  let ?m = "dict_get cache_max_size ?t 50"
  have n: "?n = int (prefix_count ?t s)" by (simp add: prefix_count_def cache_keys_def)
  have m: "1 \<le> ?m" by (rule max_size_pos)
  obtain s1 where s1: "(if ?m \<le> ?n then evict_lru_items ?t (?n - ?m + 1) s else Inr s) = Inr s1"
    and wf1: "cache_wf s1" and d1: "distinct (cache_keys s1)"
    and p1: "int (prefix_count ?t s1) < ?m"
    and k1: "set (cache_keys s1) \<subseteq> set (cache_keys s)"
    and c1: "\<And>t. category_count t s1 \<le> category_count t s"
    and e1: "evictions s1 = evictions s + (if ?m \<le> ?n then ?n - ?m + 1 else 0)"
  proof (cases "?m \<le> ?n")
    case True
    then have "0 < ?n - ?m + 1" "?n - ?m + 1 \<le> int (prefix_count ?t s)" using m n by simp_all
    from evict_lru_items_count [OF assms this] obtain s1 where
      e: "evict_lru_items ?t (?n - ?m + 1) s = Inr s1"
         "prefix_count ?t s1 = prefix_count ?t s - nat (?n - ?m + 1)"
         "evictions s1 = evictions s + (?n - ?m + 1)"
         "cache_wf s1" "distinct (cache_keys s1)"
         "\<exists>vs. cache_keys s1 = filter (\<lambda>k. k \<notin> set vs) (cache_keys s)"
      by blast
    from e(6) obtain vs where vs: "cache_keys s1 = filter (\<lambda>k. k \<notin> set vs) (cache_keys s)" by blast
    have c: "category_count t s1 \<le> category_count t s" for t
    proof -
      have "filter (\<lambda>k. split_head k = t) (cache_keys s1)
              = filter (\<lambda>k. k \<notin> set vs) (filter (\<lambda>k. split_head k = t) (cache_keys s))"
        unfolding vs by (simp add: filter_filter conj_commute)
      then show ?thesis unfolding category_count_def by (metis length_filter_le)
    qed
    have k: "set (cache_keys s1) \<subseteq> set (cache_keys s)" unfolding vs by auto
    have p: "int (prefix_count ?t s1) < ?m" using e(2) True m n by simp
    have i: "(if ?m \<le> ?n then evict_lru_items ?t (?n - ?m + 1) s else Inr s) = Inr s1"
      using True e(1) by simp
    have ev: "evictions s1 = evictions s + (if ?m \<le> ?n then ?n - ?m + 1 else 0)"
      using True e(3) by simp
    show ?thesis by (rule that [OF i e(4) e(5) p k c ev])
  next
    case False
    then have i: "(if ?m \<le> ?n then evict_lru_items ?t (?n - ?m + 1) s else Inr s) = Inr s"
      and p: "int (prefix_count ?t s) < ?m"
      and ev: "evictions s = evictions s + (if ?m \<le> ?n then ?n - ?m + 1 else 0)"
      using n by simp_all
    show ?thesis by (rule that [OF i assms p subset_refl order_refl ev])
  qed
  let ?s' = "s1\<lparr>cache := AList.update key v (cache s1),
             cache_timestamps := AList.update key T (cache_timestamps s1),
             cache_access_count := AList.update key 1 (cache_access_count s1),
             cache_hit_count := AList.update key 0 (cache_hit_count s1),
             cache_miss_count := AList.update key 0 (cache_miss_count s1)\<rparr>"
  have sc: "set_cache T key v s = Inr ?s'"
    using s1 unfolding set_cache_def Let_def by (simp split: if_splits)
  have keys': "cache_keys ?s' = (if key \<in> set (cache_keys s1) then cache_keys s1 else cache_keys s1 @ [key])"
    by (simp add: cache_keys_def cache_keys_update)
  have wf': "cache_wf ?s'"
    using wf1 by (simp add: cache_wf_def AList.dom_update)
  have d': "distinct (cache_keys ?s')" unfolding keys' using d1 by simp
  have "prefix_count ?t ?s' \<le> prefix_count ?t s1 + 1"
    unfolding prefix_count_def keys' by simp
  with p1 have p': "int (prefix_count ?t ?s') \<le> ?m" by simp
  have c': "category_count t ?s' \<le> category_count t s" if "t \<noteq> ?t" for t
  proof -
    have "category_count t ?s' = category_count t s1"
      unfolding category_count_def keys' using that by simp
    then show ?thesis using c1 [of t] by simp
  qed
  have e': "evictions ?s' = evictions s + (if ?m \<le> int (prefix_count ?t s) then int (prefix_count ?t s) - ?m + 1 else 0)"
    using e1 n by simp
  show ?thesis by (rule that [OF sc wf' d' p' c' e'])
qed


text \<open>
  The bound as an invariant: the two dictionaries hold the same keys, and for every text
  the keys with that text before the first underscore are at most the maximum size
  looked up under it. It holds of the empty cache and every \<open>set_cache\<close> keeps it, so at
  most 10 keys \<open>statistics_...\<close> are ever cached, while the keys \<open>invoice_list_...\<close>
  are bounded by the default 50.
\<close>

definition cache_bounded :: "manager \<Rightarrow> bool" where
  "cache_bounded s \<longleftrightarrow>
     cache_wf s \<and> distinct (cache_keys s) \<and>
     (\<forall>t. int (category_count t s) \<le> dict_get cache_max_size t 50)"

lemma cache_bounded_init: "cache_bounded (initialize_cache c se now)"
proof -
  have "category_count t (initialize_cache c se now) = 0" for t
    by (simp add: category_count_def cache_keys_def initialize_cache_def)
  moreover have "distinct (cache_keys (initialize_cache c se now))"
    by (simp add: cache_keys_def initialize_cache_def)
  moreover have "0 \<le> dict_get cache_max_size t 50" for t
    using max_size_pos [of t] by simp
  ultimately show ?thesis by (simp add: cache_bounded_def cache_wf_init)
qed

lemma set_cache_keeps_bound:
  assumes "cache_bounded s"
  shows "\<exists>s'. set_cache T key v s = Inr s' \<and> cache_bounded s'"
proof -
  from assms have wf: "cache_wf s" and d: "distinct (cache_keys s)"
    and b: "\<And>t. int (category_count t s) \<le> dict_get cache_max_size t 50"
    by (simp_all add: cache_bounded_def)
  show ?thesis
  proof (rule set_cache_bounded [OF wf d, of T key v])
    fix s'
    assume sc: "set_cache T key v s = Inr s'" and wf': "cache_wf s'"
      and d': "distinct (cache_keys s')"
      and p: "int (prefix_count (split_head key) s') \<le> dict_get cache_max_size (split_head key) 50"
      and c: "\<And>t. t \<noteq> split_head key \<Longrightarrow> category_count t s' \<le> category_count t s"
    have "int (category_count t s') \<le> dict_get cache_max_size t 50" for t
    proof (cases "t = split_head key")
      case True
      then show ?thesis using p category_le_prefix [of t s'] by simp
    next
      case False
      then show ?thesis using c [of t] b [of t] by simp
    qed
    with sc wf' d' show ?thesis by (simp add: cache_bounded_def)
  qed
qed

lemma set_all_keeps_bound:
  "cache_bounded s \<Longrightarrow> \<exists>s'. set_all now kvs s = Inr s' \<and> cache_bounded s'"
proof (induction kvs arbitrary: s)
  case Nil
  then show ?case by simp
next
  case (Cons kv kvs)
  obtain k v where kv: "kv = (k, v)" by (cases kv)
  from set_cache_keeps_bound [OF Cons.prems, of now k v] obtain s1 where
    "set_cache now k v s = Inr s1" "cache_bounded s1" by blast
  with Cons.IH [of s1] kv show ?case by simp
qed

lemma statistics_bounded: "cache_bounded s \<Longrightarrow> category_count ''statistics'' s \<le> 10"
proof -
  assume "cache_bounded s"
  then have "int (category_count ''statistics'' s) \<le> dict_get cache_max_size ''statistics'' 50"
    by (simp add: cache_bounded_def)
  then show ?thesis by (simp add: dict_get_def cache_max_size_def)
qed

lemma invoice_list_max_size: "dict_get cache_max_size (split_head (''invoice_list_'' @ rest)) 50 = 50"
  by (simp add: dict_get_def cache_max_size_def split_head_def)

lemma map_of_Some_key: "map_of al k = Some v \<Longrightarrow> k \<in> fst ` set al"
  by (metis map_of_eq_None_iff option.distinct(1))

lemma cache_wf_get: "cache_wf s \<Longrightarrow> cache_wf (snd (get_from_cache now key s))"
  by (auto simp: get_from_cache_def Let_def cache_wf_def is_cache_valid_def AList.dom_update
      split: option.splits dest: map_of_Some_key)


text \<open>What the cache primitives leave alone: the flags, the log and the clock.\<close>

definition same_services :: "manager \<Rightarrow> manager \<Rightarrow> bool" where
  "same_services s s' \<longleftrightarrow>
     available_cosmos s' = available_cosmos s \<and> available_search s' = available_search s \<and>
     cosmos_service s' = cosmos_service s \<and> search_service s' = search_service s \<and>
     wall_clock s' = wall_clock s \<and> backend_log s' = backend_log s"

lemma same_services_refl [simp]: "same_services s s"
  by (simp add: same_services_def)

lemma same_services_trans: "same_services a b \<Longrightarrow> same_services b c \<Longrightarrow> same_services a c"
  by (simp add: same_services_def)

lemma same_services_remove: "same_services s (remove_cache_entry k s)"
  by (simp add: same_services_def remove_cache_entry_def)

lemma same_services_fold_remove: "same_services s (fold remove_cache_entry ks s)"
proof (induction ks arbitrary: s)
  case Nil
  then show ?case by simp
next
  case (Cons k ks)
  from same_services_trans [OF same_services_remove [of s k] Cons.IH [of "remove_cache_entry k s"]]
  show ?case by simp
qed

lemma same_services_fold_evict: "same_services s (fold evict_one ks s)"
proof (induction ks arbitrary: s)
  case Nil
  then show ?case by simp
next
  case (Cons k ks)
  have "same_services s (evict_one k s)"
    by (simp add: same_services_def evict_one_def remove_cache_entry_def)
  from same_services_trans [OF this Cons.IH [of "evict_one k s"]]
  show ?case by simp
qed

lemma same_services_evict: "evict_lru_items cache_type n s = Inr s1 \<Longrightarrow> same_services s s1"
  by (cases "timestamps_of (cache_timestamps s) (filter (prefix cache_type) (map fst (cache s)))")
    (auto simp: evict_lru_items_def Let_def same_services_fold_evict)

lemma same_services_set_cache: "set_cache T key v s = Inr s' \<Longrightarrow> same_services s s'"
proof -
  assume "set_cache T key v s = Inr s'"
  then obtain s1 where
    s': "s' = s1\<lparr>cache := AList.update key v (cache s1),
             cache_timestamps := AList.update key T (cache_timestamps s1),
             cache_access_count := AList.update key 1 (cache_access_count s1),
             cache_hit_count := AList.update key 0 (cache_hit_count s1),
             cache_miss_count := AList.update key 0 (cache_miss_count s1)\<rparr>"
    and s1: "s1 = s \<or> (\<exists>n. evict_lru_items (split_head key) n s = Inr s1)"
    by (rule set_cache_Inr)
  from s1 have "same_services s s1"
    using same_services_evict by auto
  with s' show ?thesis by (simp add: same_services_def)
qed

lemma same_services_get: "same_services s (snd (get_from_cache now key s))"
  by (simp add: get_from_cache_def Let_def same_services_def)

lemma same_services_clear: "same_services s (clear_cache pat s)"
  by (cases pat) (simp_all add: clear_cache_def same_services_fold_remove, simp_all add: same_services_def)

lemma cache_wf_clear: "cache_wf s \<Longrightarrow> cache_wf (clear_cache pat s)"
  by (cases pat) (simp_all add: clear_cache_def cache_wf_fold_remove, simp_all add: cache_wf_def)

text \<open>The keys that survive a run of removals.\<close>

lemma cache_keys_remove: "cache_keys (remove_cache_entry k s) = removeAll k (cache_keys s)"
  by (simp add: cache_keys_def remove_cache_entry_def AList.delete_keys)

lemma cache_keys_fold_remove:
  "cache_keys (fold remove_cache_entry ks s) = filter (\<lambda>k. k \<notin> set ks) (cache_keys s)"
proof (induction ks arbitrary: s)
  case Nil
  then show ?case by simp
next
  case (Cons k ks)
  have "filter (\<lambda>x. x \<notin> set ks) (removeAll k xs) = filter (\<lambda>x. x \<notin> set (k # ks)) xs" for xs
    by (induction xs) auto
  then show ?case by (simp add: Cons.IH cache_keys_remove)
qed

lemma cache_keys_clear:
  "pat \<noteq> [] \<Longrightarrow> cache_keys (clear_cache (Some pat) s) = filter (\<lambda>k. \<not> py_in pat k) (cache_keys s)"
proof -
  assume "pat \<noteq> []"
  then have "cache_keys (clear_cache (Some pat) s)
          = filter (\<lambda>k. k \<notin> set (filter (py_in pat) (cache_keys s))) (cache_keys s)"
    by (simp add: clear_cache_def cache_keys_fold_remove) (simp add: cache_keys_def)
  also have "\<dots> = filter (\<lambda>k. \<not> py_in pat k) (cache_keys s)"
    by (rule filter_cong) auto
  finally show ?thesis .
qed

lemma cache_keys_status_update:
  "set (cache_keys (invalidate_after_status_update n s))
     = {k \<in> set (cache_keys s). \<not> py_in ''statistics'' k \<and> k \<noteq> ''invoice_detail_'' @ n \<and>
          \<not> prefix ''search_results'' k}"
proof -
  let ?s1 = "clear_cache (Some ''statistics'') s"
  let ?s2 = "remove_cache_entry (''invoice_detail_'' @ n) ?s1"
  have k2: "cache_keys ?s2
      = removeAll (''invoice_detail_'' @ n) (filter (\<lambda>k. \<not> py_in ''statistics'' k) (cache_keys s))"
    by (simp add: cache_keys_remove cache_keys_clear)
  have "invalidate_after_status_update n s
      = fold remove_cache_entry (filter (prefix ''search_results'') (cache_keys ?s2)) ?s2"
    by (simp add: invalidate_after_status_update_def Let_def cache_keys_def)
  then have "cache_keys (invalidate_after_status_update n s)
      = filter (\<lambda>k. k \<notin> set (filter (prefix ''search_results'') (cache_keys ?s2))) (cache_keys ?s2)"
    by (simp only: cache_keys_fold_remove)
  then show ?thesis unfolding k2 by auto
qed


text \<open>The guard of the read operations on a valid entry whose value is falsy.\<close>

lemma get_from_cache_hit:
  assumes "is_cache_valid now key s"
  shows "get_from_cache now key s =
     (dict_get (cache s) key JNone,
      s\<lparr>total_requests := total_requests s + 1,
         cache_access_count :=
           AList.update key (dict_get (cache_access_count s) key 0 + 1) (cache_access_count s),
         cache_hit_count :=
           AList.update key (dict_get (cache_hit_count s) key 0 + 1) (cache_hit_count s),
         cache_hits := cache_hits s + 1,
         cache_timestamps := AList.update key now (cache_timestamps s)\<rparr>)"
proof -
  have "is_cache_valid now key (s\<lparr>total_requests := total_requests s + 1\<rparr>)"
    using assms by (simp add: is_cache_valid_def)
  then show ?thesis by (simp add: get_from_cache_def Let_def)
qed

lemma cached_read_falsy:
  assumes "is_cache_valid (wall_clock s) key s" and "\<not> truthy (dict_get (cache s) key JNone)"
  shows "cached_read False key s = (None, snd (get_from_cache (wall_clock s) key s))"
    and "cached_read True key (snd (get_from_cache (wall_clock s) key s))
           = (None, snd (get_from_cache (wall_clock s) key s))"
  using assms by (simp_all add: cached_read_def get_from_cache_hit)

lemma cached_read_absent:
  assumes "map_of (cache_timestamps s) key = None"
  shows "cached_read False key s =
     (None, s\<lparr>total_requests := total_requests s + 1,
              cache_miss_count :=
                AList.update key (dict_get (cache_miss_count s) key 0 + 1) (cache_miss_count s),
              cache_misses := cache_misses s + 1\<rparr>)"
  using assms by (simp add: cached_read_def get_from_cache_def is_cache_valid_def Let_def)

lemma call_backend_facts:
  assumes "call_backend e c s = (r, s2)"
  shows "r = snd (respond e (length (backend_log s)) c)"
    and "backend_log s2 = backend_log s @ [c]"
    and "cache s2 = cache s" and "cache_timestamps s2 = cache_timestamps s"
    and "available_cosmos s2 = available_cosmos s" and "cosmos_service s2 = cosmos_service s"
    and "available_search s2 = available_search s" and "search_service s2 = search_service s"
  using assms by (auto simp: call_backend_def Let_def split: prod.splits)

lemma cache_wf_call_backend: "cache_wf s \<Longrightarrow> cache_wf (snd (call_backend e c s))"
  by (simp add: call_backend_def Let_def cache_wf_def split: prod.splits)

lemma store_and_return_ok:
  assumes "cache_wf s"
  obtains s' where "store_and_return key v s = (Inr v, s')" and "cache_wf s'"
    and "same_services s s'" and "map_of (cache s') key = Some v"
proof -
  from set_cache_total [OF assms, of "wall_clock s" key v] obtain s'
    where s': "set_cache (wall_clock s) key v s = Inr s'" "cache_wf s'" by blast
  then have "store_and_return key v s = (Inr v, s')" by (simp add: store_and_return_def)
  with s' same_services_set_cache [OF s'(1)] set_cache_lookup(1) [OF s'(1)] that show ?thesis
    by blast
qed

lemma store_and_return_log: "backend_log (snd (store_and_return key v s)) = backend_log s"
proof (cases "set_cache (wall_clock s) key v s")
  case (Inl err)
  then show ?thesis by (simp add: store_and_return_def)
next
  case (Inr s')
  with same_services_set_cache [OF Inr] show ?thesis
    by (simp add: store_and_return_def same_services_def)
qed

text \<open>The tail shared by \<open>get_statistics\<close>, \<open>list_invoices\<close> and \<open>get_invoice\<close>.\<close>

definition fetch_and_store ::
  "env \<Rightarrow> backend_call \<Rightarrow> string \<Rightarrow> manager \<Rightarrow> (string + json) \<times> manager" where
  "fetch_and_store e c key s =
     (case call_backend e c s of
        (Inl err, s2) \<Rightarrow> (Inl err, s2)
      | (Inr v, s2) \<Rightarrow> store_and_return key v s2)"

lemma fetch_and_store_log:
  "backend_log (snd (fetch_and_store e c key s)) = backend_log s @ [c]"
proof (cases "call_backend e c s")
  case (Pair r s2)
  then show ?thesis
    using call_backend_facts(2) [OF Pair]
    by (cases r) (simp_all add: fetch_and_store_def store_and_return_log)
qed

lemma fetch_and_store_result:
  assumes "cache_wf s"
  shows "fst (fetch_and_store e c key s) = snd (respond e (length (backend_log s)) c) \<and>
         (\<forall>v. snd (respond e (length (backend_log s)) c) = Inr v \<longrightarrow>
           map_of (cache (snd (fetch_and_store e c key s))) key = Some v) \<and>
         cache_wf (snd (fetch_and_store e c key s))"
proof -
  obtain r s2 where p: "call_backend e c s = (r, s2)" by (cases "call_backend e c s")
  have r: "snd (respond e (length (backend_log s)) c) = r"
    using call_backend_facts(1) [OF p] by simp
  have wf2: "cache_wf s2" using cache_wf_call_backend [OF assms, of e c] p by simp
  show ?thesis
  proof (cases r)
    case (Inl err)
    then have "fetch_and_store e c key s = (Inl err, s2)"
      using p by (simp add: fetch_and_store_def)
    with Inl wf2 show ?thesis unfolding r by simp
  next
    case (Inr v)
    from store_and_return_ok [OF wf2, of key v] obtain s' where
      s': "store_and_return key v s2 = (Inr v, s')" "cache_wf s'" "map_of (cache s') key = Some v"
      by blast
    then have "fetch_and_store e c key s = (Inr v, s')"
      using p Inr by (simp add: fetch_and_store_def)
    with Inr s' show ?thesis unfolding r by simp
  qed
qed

lemma get_statistics_forced:
  "available_cosmos s \<Longrightarrow> cosmos_service s \<Longrightarrow>
   get_statistics e True s = fetch_and_store e Cosmos_get_invoice_statistics ''statistics_main'' s"
  by (simp add: get_statistics_def cached_read_def fetch_and_store_def Let_def)

lemma list_invoices_forced:
  "available_cosmos s \<Longrightarrow> cosmos_service s \<Longrightarrow>
   list_invoices e limit True s
     = fetch_and_store e (Cosmos_list_invoices limit) (''invoice_list_'' @ str_of_int limit) s"
  by (simp add: list_invoices_def cached_read_def fetch_and_store_def Let_def)

lemma get_invoice_forced:
  "available_cosmos s \<Longrightarrow> cosmos_service s \<Longrightarrow>
   get_invoice e n True s = fetch_and_store e (Cosmos_get_invoice n) (''invoice_detail_'' @ n) s"
  by (simp add: get_invoice_def cached_read_def fetch_and_store_def Let_def)

lemma read_ops_falsy:
  assumes "is_cache_valid (wall_clock s) key s" and "\<not> truthy (dict_get (cache s) key JNone)"
  defines "s1 \<equiv> snd (get_from_cache (wall_clock s) key s)"
  shows "key = ''statistics_main'' \<Longrightarrow> get_statistics e False s = get_statistics e True s1"
    and "key = ''invoice_list_'' @ str_of_int limit \<Longrightarrow>
           list_invoices e limit False s = list_invoices e limit True s1"
    and "key = search_cache_key e query \<Longrightarrow>
           search_invoices e query False s = search_invoices e query True s1"
    and "key = ''invoice_detail_'' @ n \<Longrightarrow> get_invoice e n False s = get_invoice e n True s1"
    and "key = ''client_data_'' @ client_key_of c \<Longrightarrow>
           get_client_invoices e c False s = get_client_invoices e c True s1"
    and "key = ''service_status_main'' \<Longrightarrow>
           get_service_status_cached e False s = get_service_status_cached e True s1"
  using cached_read_falsy [OF assms(1,2)] unfolding s1_def
  by (simp_all add: get_statistics_def list_invoices_def search_invoices_def get_invoice_def
      get_client_invoices_def get_service_status_cached_def Let_def)


lemma search_invoices_forced_log:
  assumes "available_search s" and "search_service s"
  shows "prefix (backend_log s @ [Search_search_invoices query])
           (backend_log (snd (search_invoices e query True s)))"
proof -
  obtain r s2 where p: "call_backend e (Search_search_invoices query) s = (r, s2)"
    by (cases "call_backend e (Search_search_invoices query) s")
  have l2: "backend_log s2 = backend_log s @ [Search_search_invoices query]"
    by (rule call_backend_facts(2) [OF p])
  define results1 where "results1 = (case r of Inl err \<Rightarrow> JList [] | Inr found \<Rightarrow> found)"
  obtain r' s3 where p': "call_backend e (Cosmos_search_invoices query) s2 = (r', s3)"
    by (cases "call_backend e (Cosmos_search_invoices query) s2")
  have l3: "backend_log s3 = backend_log s2 @ [Cosmos_search_invoices query]"
    by (rule call_backend_facts(2) [OF p'])
  have "backend_log (snd (search_invoices e query True s)) = backend_log s2 \<or>
        backend_log (snd (search_invoices e query True s)) = backend_log s3"
    using assms p p'
    by (cases r; cases r')
      (simp_all add: search_invoices_def cached_read_def Let_def store_and_return_log)
  with l2 l3 show ?thesis by auto
qed

text \<open>
  A search that does not answer from the cache, with both services available: the
  search index is queried first; when it raises or finds nothing the document store is
  queried, and only then; what the last of them found (the empty list when the index
  raised and the store raised too) is returned and stored under the hashed key.
\<close>

lemma search_invoices_index_first:
  assumes "cache_wf s" and "available_search s" and "search_service s"
    and "available_cosmos s" and "cosmos_service s"
    and "snd (respond e (length (backend_log s)) (Search_search_invoices query)) = first"
    and "snd (respond e (Suc (length (backend_log s))) (Cosmos_search_invoices query)) = second"
  defines "found1 \<equiv> (case first of Inl err \<Rightarrow> JList [] | Inr v \<Rightarrow> v)"
  defines "found2 \<equiv> (case second of Inl err \<Rightarrow> found1 | Inr v \<Rightarrow> v)"
  defines "out \<equiv> search_invoices e query True s"
  shows "truthy found1 \<Longrightarrow>
           fst out = Inr found1 \<and>
           backend_log (snd out) = backend_log s @ [Search_search_invoices query] \<and>
           map_of (cache (snd out)) (search_cache_key e query) = Some found1"
    and "\<not> truthy found1 \<Longrightarrow>
           fst out = Inr found2 \<and>
           backend_log (snd out)
             = backend_log s @ [Search_search_invoices query, Cosmos_search_invoices query] \<and>
           map_of (cache (snd out)) (search_cache_key e query) = Some found2"
proof -
  let ?key = "search_cache_key e query"
  obtain r s2 where p: "call_backend e (Search_search_invoices query) s = (r, s2)"
    by (cases "call_backend e (Search_search_invoices query) s")
  note f = call_backend_facts [OF p]
  have r: "r = first" using f(1) assms(6) by simp
  have wf2: "cache_wf s2" using cache_wf_call_backend [OF assms(1), of e "Search_search_invoices query"] p by simp
  obtain r' s3 where p': "call_backend e (Cosmos_search_invoices query) s2 = (r', s3)"
    by (cases "call_backend e (Cosmos_search_invoices query) s2")
  note f' = call_backend_facts [OF p']
  have r': "r' = second" using f'(1) f(2) assms(7) by simp
  have wf3: "cache_wf s3" using cache_wf_call_backend [OF wf2, of e "Cosmos_search_invoices query"] p' by simp
  {
    assume t: "truthy found1"
    have "out = store_and_return ?key found1 s2"
      using assms(2,3) p r t unfolding out_def found1_def
      by (cases first) (simp_all add: search_invoices_def cached_read_def Let_def)
    moreover from store_and_return_ok [OF wf2, of ?key found1] obtain s' where
      "store_and_return ?key found1 s2 = (Inr found1, s')" "same_services s2 s'"
      "map_of (cache s') ?key = Some found1" by blast
    ultimately show "fst out = Inr found1 \<and>
           backend_log (snd out) = backend_log s @ [Search_search_invoices query] \<and>
           map_of (cache (snd out)) ?key = Some found1"
      using f(2) by (simp add: same_services_def)
  }
  {
    assume t: "\<not> truthy found1"
    have "out = store_and_return ?key found2 s3"
      using assms(2,3,4,5) p p' r r' t f(5,6) unfolding out_def found1_def found2_def
      by (cases first; cases second) (simp_all add: search_invoices_def cached_read_def Let_def)
    moreover from store_and_return_ok [OF wf3, of ?key found2] obtain s' where
      "store_and_return ?key found2 s3 = (Inr found2, s')" "same_services s3 s'"
      "map_of (cache s') ?key = Some found2" by blast
    ultimately show "fst out = Inr found2 \<and>
           backend_log (snd out)
             = backend_log s @ [Search_search_invoices query, Cosmos_search_invoices query] \<and>
           map_of (cache (snd out)) ?key = Some found2"
      using f(2) f'(2) by (simp add: same_services_def)
  }
qed

text \<open>
  What a fetch leaves behind. \<open>fetched_and_cached\<close>: the operation has made exactly
  the given call to the backend, it returns what the backend answered, and an answer is
  stored under the key, while an exception of the backend leaves the cache as it was.
  \<open>searched_and_cached\<close>: the operation has queried the search index and, when the
  index raised or found nothing, the document store after it; it returns what the last
  of them found and has stored it under the key of the query.
\<close>

definition fetched_and_cached ::
  "env \<Rightarrow> backend_call \<Rightarrow> string \<Rightarrow> manager \<Rightarrow> (string + json) \<times> manager \<Rightarrow> bool" where
  "fetched_and_cached e call key s out \<longleftrightarrow>
     backend_log (snd out) = backend_log s @ [call] \<and>
     fst out = snd (respond e (length (backend_log s)) call) \<and>
     (case fst out of
        Inl err \<Rightarrow> cache (snd out) = cache s
      | Inr v \<Rightarrow> map_of (cache (snd out)) key = Some v)"

definition searched_and_cached ::
  "env \<Rightarrow> string \<Rightarrow> manager \<Rightarrow> (string + json) \<times> manager \<Rightarrow> bool" where
  "searched_and_cached e query s out \<longleftrightarrow>
     (let n = length (backend_log s);
          found1 = (case snd (respond e n (Search_search_invoices query)) of
                      Inl err \<Rightarrow> JList [] | Inr v \<Rightarrow> v);
          found2 = (case snd (respond e (Suc n) (Cosmos_search_invoices query)) of
                      Inl err \<Rightarrow> found1 | Inr v \<Rightarrow> v)
      in if truthy found1
         then fst out = Inr found1 \<and>
              backend_log (snd out) = backend_log s @ [Search_search_invoices query] \<and>
              map_of (cache (snd out)) (search_cache_key e query) = Some found1
         else fst out = Inr found2 \<and>
              backend_log (snd out)
                = backend_log s @ [Search_search_invoices query, Cosmos_search_invoices query] \<and>
              map_of (cache (snd out)) (search_cache_key e query) = Some found2)"

lemma fetched_and_cachedD:
  assumes "fetched_and_cached e call key s out"
    and "snd (respond e (length (backend_log s)) call) = Inr v"
  shows "fst out = Inr v" and "backend_log (snd out) = backend_log s @ [call]"
    and "map_of (cache (snd out)) key = Some v"
  using assms by (auto simp: fetched_and_cached_def)

lemma searched_and_cachedD:
  assumes "searched_and_cached e query s out"
    and "snd (respond e (length (backend_log s)) (Search_search_invoices query)) = Inr (JList [])"
    and "snd (respond e (Suc (length (backend_log s))) (Cosmos_search_invoices query)) = Inr v"
  shows "fst out = Inr v"
    and "backend_log (snd out)
           = backend_log s @ [Search_search_invoices query, Cosmos_search_invoices query]"
    and "map_of (cache (snd out)) (search_cache_key e query) = Some v"
  using assms by (simp_all add: searched_and_cached_def Let_def)

lemma fetch_and_store_fetched:
  assumes "cache_wf s"
  shows "fetched_and_cached e c key s (fetch_and_store e c key s)"
proof -
  obtain r s2 where p: "call_backend e c s = (r, s2)" by (cases "call_backend e c s")
  note f = call_backend_facts [OF p]
  have wf2: "cache_wf s2" using cache_wf_call_backend [OF assms, of e c] p by simp
  show ?thesis
  proof (cases r)
    case (Inl err)
    then have "fetch_and_store e c key s = (Inl err, s2)"
      using p by (simp add: fetch_and_store_def)
    with Inl f(1,2,3) show ?thesis by (simp add: fetched_and_cached_def)
  next
    case (Inr v)
    from store_and_return_ok [OF wf2, of key v] obtain s' where
      s': "store_and_return key v s2 = (Inr v, s')" "same_services s2 s'"
        "map_of (cache s') key = Some v"
      by blast
    then have "fetch_and_store e c key s = (Inr v, s')"
      using p Inr by (simp add: fetch_and_store_def)
    with Inr s' f(1,2) show ?thesis by (simp add: fetched_and_cached_def same_services_def)
  qed
qed

lemma search_invoices_searched:
  assumes "cache_wf s" and "available_search s" and "search_service s"
    and "available_cosmos s" and "cosmos_service s"
  shows "searched_and_cached e query s (search_invoices e query True s)"
  using search_invoices_index_first [OF assms refl refl, of e query]
  by (simp add: searched_and_cached_def Let_def)

lemma cache_wf_store_and_return:
  "cache_wf s \<Longrightarrow> cache_wf (snd (store_and_return key v s))"
  using store_and_return_ok [of s key v] by (metis snd_conv)

lemma cache_wf_cached_read: "cache_wf s \<Longrightarrow> cache_wf (snd (cached_read f key s))"
  using cache_wf_get [of s "wall_clock s" key]
  by (cases "get_from_cache (wall_clock s) key s") (simp add: cached_read_def)

lemma cache_wf_search_invoices:
  assumes "cache_wf s"
  shows "cache_wf (snd (search_invoices e query f s))"
proof -
  obtain c s1 where r: "cached_read f (search_cache_key e query) s = (c, s1)"
    by (cases "cached_read f (search_cache_key e query) s")
  have wf1: "cache_wf s1" using cache_wf_cached_read [OF assms, of f "search_cache_key e query"] r by simp
  have cb: "cache_wf (snd (call_backend e b t))" if "cache_wf t" for b t
    using that by (rule cache_wf_call_backend)
  show ?thesis
  proof (cases c)
    case (Some v)
    with r wf1 show ?thesis by (simp add: search_invoices_def Let_def)
  next
    case None
    with r wf1 show ?thesis
      using cb cache_wf_store_and_return
      by (auto simp: search_invoices_def Let_def split: prod.splits sum.splits if_splits
          dest!: arg_cong [where f = snd])
  qed
qed


lemma get_service_status_cached_forced:
  fixes e :: env
  assumes "cache_wf s"
  defines "report \<equiv> JDict (AList.update ''cache_statistics'' (cache_statistics e s) (service_status e s))"
  shows "fst (get_service_status_cached e True s) = Inr report \<and>
         map_of (cache (snd (get_service_status_cached e True s))) ''service_status_main'' = Some report \<and>
         backend_log (snd (get_service_status_cached e True s)) = backend_log s"
proof -
  from store_and_return_ok [OF assms(1), of "''service_status_main''" report] obtain s' where
    "store_and_return ''service_status_main'' report s = (Inr report, s')" "same_services s s'"
    "map_of (cache s') ''service_status_main'' = Some report"
    by blast
  then show ?thesis
    by (simp add: get_service_status_cached_def cached_read_def Let_def report_def
        same_services_def)
qed

lemma get_client_invoices_forced:
  assumes "cache_wf s" and "search_invoices e c False s = (Inr invoices, s2)"
    and "py_iter invoices = Inr items" and "filter_client c items = Inr found"
  shows "fst (get_client_invoices e c True s) = Inr (JList found) \<and>
         map_of (cache (snd (get_client_invoices e c True s))) (''client_data_'' @ client_key_of c)
           = Some (JList found) \<and>
         backend_log (snd (get_client_invoices e c True s)) = backend_log s2"
proof -
  have wf2: "cache_wf s2"
    using cache_wf_search_invoices [OF assms(1), of e c False] assms(2) by simp
  from store_and_return_ok [OF wf2, of "''client_data_'' @ client_key_of c" "JList found"]
  obtain s' where
    "store_and_return (''client_data_'' @ client_key_of c) (JList found) s2 = (Inr (JList found), s')"
    "same_services s2 s'" "map_of (cache s') (''client_data_'' @ client_key_of c) = Some (JList found)"
    by blast
  then show ?thesis
    using assms(2,3,4)
    by (simp add: get_client_invoices_def cached_read_def Let_def same_services_def)
qed

text \<open>
  C10, with the fetch path of each operation spelled out. On a cache whose dictionaries
  hold the same keys, when the entry under a key is valid and its value is falsy,
  \<open>get_from_cache\<close> returns that value, counts the access as a hit (global and per-key
  counter) and moves the time stamp to the time of the read, and the read operation of
  that key does not return the cached value but fetches again: \<open>get_statistics\<close>,
  \<open>list_invoices\<close> and \<open>get_invoice\<close>, with the document store available, call the
  store once more, return its answer and store it under the key; \<open>search_invoices\<close>,
  with both services available, queries the index again, then the store when the index
  raised or found nothing, and returns and stores what was found;
  \<open>get_service_status_cached\<close> rebuilds the status and stores it, with no backend
  call; \<open>get_client_invoices\<close> runs \<open>search_invoices\<close> for the client name and returns
  and stores the exact matches among what that search returns, with the backend calls
  of that search and no other.
\<close>

theorem C10_falsy_cached_value_is_refetched:
  fixes e :: env and s :: manager and key query n c :: string and limit :: int
  defines "s1 \<equiv> snd (get_from_cache (wall_clock s) key s)"
  shows
   "cache_wf s \<and> is_cache_valid (wall_clock s) key s \<and> \<not> truthy (dict_get (cache s) key JNone) \<longrightarrow>
      fst (get_from_cache (wall_clock s) key s) = dict_get (cache s) key JNone \<and>
      cache_hits s1 = cache_hits s + 1 \<and>
      dict_get (cache_hit_count s1) key 0 = dict_get (cache_hit_count s) key 0 + 1 \<and>
      map_of (cache_timestamps s1) key = Some (wall_clock s) \<and>
      (key = ''statistics_main'' \<and> available_cosmos s \<and> cosmos_service s \<longrightarrow>
         fetched_and_cached e Cosmos_get_invoice_statistics key s (get_statistics e False s)) \<and>
      (key = ''invoice_list_'' @ str_of_int limit \<and> available_cosmos s \<and> cosmos_service s \<longrightarrow>
         fetched_and_cached e (Cosmos_list_invoices limit) key s (list_invoices e limit False s)) \<and>
      (key = ''invoice_detail_'' @ n \<and> available_cosmos s \<and> cosmos_service s \<longrightarrow>
         fetched_and_cached e (Cosmos_get_invoice n) key s (get_invoice e n False s)) \<and>
      (key = search_cache_key e query \<and> available_search s \<and> search_service s \<and>
       available_cosmos s \<and> cosmos_service s \<longrightarrow>
         searched_and_cached e query s (search_invoices e query False s)) \<and>
      (key = ''service_status_main'' \<longrightarrow>
         fst (get_service_status_cached e False s)
           = Inr (JDict (AList.update ''cache_statistics'' (cache_statistics e s1)
                   (service_status e s1))) \<and>
         map_of (cache (snd (get_service_status_cached e False s))) key
           = Some (JDict (AList.update ''cache_statistics'' (cache_statistics e s1)
                   (service_status e s1))) \<and>
         backend_log (snd (get_service_status_cached e False s)) = backend_log s) \<and>
      (key = ''client_data_'' @ client_key_of c \<longrightarrow>
         (\<forall>invoices s2 items found.
            search_invoices e c False s1 = (Inr invoices, s2) \<and>
            py_iter invoices = Inr items \<and> filter_client c items = Inr found \<longrightarrow>
              fst (get_client_invoices e c False s) = Inr (JList found) \<and>
              map_of (cache (snd (get_client_invoices e c False s))) key = Some (JList found) \<and>
              backend_log (snd (get_client_invoices e c False s)) = backend_log s2))"
proof
  assume h: "cache_wf s \<and> is_cache_valid (wall_clock s) key s \<and>
    \<not> truthy (dict_get (cache s) key JNone)"
  then have wf: "cache_wf s" and v: "is_cache_valid (wall_clock s) key s"
    and f: "\<not> truthy (dict_get (cache s) key JNone)" by simp_all
  note hit = get_from_cache_hit [OF v]
  have g: "fst (get_from_cache (wall_clock s) key s) = dict_get (cache s) key JNone"
      "cache_hits s1 = cache_hits s + 1"
      "dict_get (cache_hit_count s1) key 0 = dict_get (cache_hit_count s) key 0 + 1"
      "map_of (cache_timestamps s1) key = Some (wall_clock s)"
    unfolding s1_def hit by (simp_all add: dict_get_def AList.update_conv')
  have frame: "available_cosmos s1 = available_cosmos s" "cosmos_service s1 = cosmos_service s"
      "available_search s1 = available_search s" "search_service s1 = search_service s"
      "backend_log s1 = backend_log s" "cache s1 = cache s"
    unfolding s1_def hit by simp_all
  have wf1: "cache_wf s1" unfolding s1_def by (rule cache_wf_get [OF wf])
  note ops = read_ops_falsy [OF v f, folded s1_def]
  have same: "fetched_and_cached e call key s1 out = fetched_and_cached e call key s out" for call out
    by (simp add: fetched_and_cached_def frame cong: sum.case_cong)
  have same': "searched_and_cached e query s1 out = searched_and_cached e query s out" for out
    by (simp add: searched_and_cached_def frame)
  have o1: "key = ''statistics_main'' \<and> available_cosmos s \<and> cosmos_service s \<longrightarrow>
         fetched_and_cached e Cosmos_get_invoice_statistics key s (get_statistics e False s)"
  proof
    assume a: "key = ''statistics_main'' \<and> available_cosmos s \<and> cosmos_service s"
    then have av: "available_cosmos s1" "cosmos_service s1" by (simp_all add: frame)
    from a have "get_statistics e False s = fetch_and_store e Cosmos_get_invoice_statistics key s1"
      using ops(1) [of e] get_statistics_forced [OF av, of e] by simp
    then show "fetched_and_cached e Cosmos_get_invoice_statistics key s (get_statistics e False s)"
      using fetch_and_store_fetched [OF wf1, of e Cosmos_get_invoice_statistics key] same by simp
  qed
  have o2: "key = ''invoice_list_'' @ str_of_int limit \<and> available_cosmos s \<and> cosmos_service s \<longrightarrow>
         fetched_and_cached e (Cosmos_list_invoices limit) key s (list_invoices e limit False s)"
  proof
    assume a: "key = ''invoice_list_'' @ str_of_int limit \<and> available_cosmos s \<and> cosmos_service s"
    then have av: "available_cosmos s1" "cosmos_service s1" by (simp_all add: frame)
    from a have "list_invoices e limit False s = fetch_and_store e (Cosmos_list_invoices limit) key s1"
      using ops(2) [of limit e] list_invoices_forced [OF av, of e limit] by simp
    then show "fetched_and_cached e (Cosmos_list_invoices limit) key s (list_invoices e limit False s)"
      using fetch_and_store_fetched [OF wf1, of e "Cosmos_list_invoices limit" key] same by simp
  qed
  have o3: "key = ''invoice_detail_'' @ n \<and> available_cosmos s \<and> cosmos_service s \<longrightarrow>
         fetched_and_cached e (Cosmos_get_invoice n) key s (get_invoice e n False s)"
  proof
    assume a: "key = ''invoice_detail_'' @ n \<and> available_cosmos s \<and> cosmos_service s"
    then have av: "available_cosmos s1" "cosmos_service s1" by (simp_all add: frame)
    from a have "get_invoice e n False s = fetch_and_store e (Cosmos_get_invoice n) key s1"
      using ops(4) [of n e] get_invoice_forced [OF av, of e n] by simp
    then show "fetched_and_cached e (Cosmos_get_invoice n) key s (get_invoice e n False s)"
      using fetch_and_store_fetched [OF wf1, of e "Cosmos_get_invoice n" key] same by simp
  qed
  have o4: "key = search_cache_key e query \<and> available_search s \<and> search_service s \<and>
       available_cosmos s \<and> cosmos_service s \<longrightarrow>
         searched_and_cached e query s (search_invoices e query False s)"
  proof
    assume a: "key = search_cache_key e query \<and> available_search s \<and> search_service s \<and>
       available_cosmos s \<and> cosmos_service s"
    then have av: "available_search s1" "search_service s1" "available_cosmos s1" "cosmos_service s1"
      by (simp_all add: frame)
    from a have "search_invoices e query False s = search_invoices e query True s1"
      using ops(3) [of e query] by simp
    then show "searched_and_cached e query s (search_invoices e query False s)"
      using search_invoices_searched [OF wf1 av, of e query] same' by simp
  qed
  have o5: "key = ''service_status_main'' \<longrightarrow>
         fst (get_service_status_cached e False s)
           = Inr (JDict (AList.update ''cache_statistics'' (cache_statistics e s1)
                   (service_status e s1))) \<and>
         map_of (cache (snd (get_service_status_cached e False s))) key
           = Some (JDict (AList.update ''cache_statistics'' (cache_statistics e s1)
                   (service_status e s1))) \<and>
         backend_log (snd (get_service_status_cached e False s)) = backend_log s"
  proof
    assume a: "key = ''service_status_main''"
    then have "get_service_status_cached e False s = get_service_status_cached e True s1"
      using ops(6) [of e] by simp
    then show "fst (get_service_status_cached e False s)
           = Inr (JDict (AList.update ''cache_statistics'' (cache_statistics e s1)
                   (service_status e s1))) \<and>
         map_of (cache (snd (get_service_status_cached e False s))) key
           = Some (JDict (AList.update ''cache_statistics'' (cache_statistics e s1)
                   (service_status e s1))) \<and>
         backend_log (snd (get_service_status_cached e False s)) = backend_log s"
      using get_service_status_cached_forced [OF wf1, of e] a frame(5) by simp
  qed
  have o6: "key = ''client_data_'' @ client_key_of c \<longrightarrow>
         (\<forall>invoices s2 items found.
            search_invoices e c False s1 = (Inr invoices, s2) \<and>
            py_iter invoices = Inr items \<and> filter_client c items = Inr found \<longrightarrow>
              fst (get_client_invoices e c False s) = Inr (JList found) \<and>
              map_of (cache (snd (get_client_invoices e c False s))) key = Some (JList found) \<and>
              backend_log (snd (get_client_invoices e c False s)) = backend_log s2)"
  proof (intro impI allI)
    fix invoices s2 items found
    assume a: "key = ''client_data_'' @ client_key_of c"
      and b: "search_invoices e c False s1 = (Inr invoices, s2) \<and>
            py_iter invoices = Inr items \<and> filter_client c items = Inr found"
    from a have eq: "get_client_invoices e c False s = get_client_invoices e c True s1"
      using ops(5) [of c e] by simp
    from b have b1: "search_invoices e c False s1 = (Inr invoices, s2)"
      and b2: "py_iter invoices = Inr items" and b3: "filter_client c items = Inr found"
      by simp_all
    show "fst (get_client_invoices e c False s) = Inr (JList found) \<and>
              map_of (cache (snd (get_client_invoices e c False s))) key = Some (JList found) \<and>
              backend_log (snd (get_client_invoices e c False s)) = backend_log s2"
      unfolding eq a by (rule get_client_invoices_forced [OF wf1 b1 b2 b3])
  qed
  from g o1 o2 o3 o4 o5 o6
  show "fst (get_from_cache (wall_clock s) key s) = dict_get (cache s) key JNone \<and>
      cache_hits s1 = cache_hits s + 1 \<and>
      dict_get (cache_hit_count s1) key 0 = dict_get (cache_hit_count s) key 0 + 1 \<and>
      map_of (cache_timestamps s1) key = Some (wall_clock s) \<and>
      (key = ''statistics_main'' \<and> available_cosmos s \<and> cosmos_service s \<longrightarrow>
         fetched_and_cached e Cosmos_get_invoice_statistics key s (get_statistics e False s)) \<and>
      (key = ''invoice_list_'' @ str_of_int limit \<and> available_cosmos s \<and> cosmos_service s \<longrightarrow>
         fetched_and_cached e (Cosmos_list_invoices limit) key s (list_invoices e limit False s)) \<and>
      (key = ''invoice_detail_'' @ n \<and> available_cosmos s \<and> cosmos_service s \<longrightarrow>
         fetched_and_cached e (Cosmos_get_invoice n) key s (get_invoice e n False s)) \<and>
      (key = search_cache_key e query \<and> available_search s \<and> search_service s \<and>
       available_cosmos s \<and> cosmos_service s \<longrightarrow>
         searched_and_cached e query s (search_invoices e query False s)) \<and>
      (key = ''service_status_main'' \<longrightarrow>
         fst (get_service_status_cached e False s)
           = Inr (JDict (AList.update ''cache_statistics'' (cache_statistics e s1)
                   (service_status e s1))) \<and>
         map_of (cache (snd (get_service_status_cached e False s))) key
           = Some (JDict (AList.update ''cache_statistics'' (cache_statistics e s1)
                   (service_status e s1))) \<and>
         backend_log (snd (get_service_status_cached e False s)) = backend_log s) \<and>
      (key = ''client_data_'' @ client_key_of c \<longrightarrow>
         (\<forall>invoices s2 items found.
            search_invoices e c False s1 = (Inr invoices, s2) \<and>
            py_iter invoices = Inr items \<and> filter_client c items = Inr found \<longrightarrow>
              fst (get_client_invoices e c False s) = Inr (JList found) \<and>
              map_of (cache (snd (get_client_invoices e c False s))) key = Some (JList found) \<and>
              backend_log (snd (get_client_invoices e c False s)) = backend_log s2))"
    by (intro conjI) assumption+
qed


text \<open>
  An environment in which every search and listing finds nothing and no invoice
  exists, and the states after one \<open>get_invoice\<close> and after one \<open>search_invoices\<close> on a
  fresh manager with both services available.
\<close>

definition known_bad_backend :: env where
  "known_bad_backend =
     \<lparr>respond = (\<lambda>n c. (1, case c of Cosmos_get_invoice number \<Rightarrow> Inr JNone | _ \<Rightarrow> Inr (JList []))),
      md5_hexdigest = (\<lambda>text. ''9e107d9d372bb6826bd81d3542a419d6''),
      py_repr = (\<lambda>v. []), service_status = (\<lambda>s. []), cache_statistics = (\<lambda>s. JNone)\<rparr>"

definition after_missing_invoice :: manager where
  "after_missing_invoice =
     snd (get_invoice known_bad_backend ''INV-404'' False (initialize_cache True True 0))"

definition after_empty_search :: manager where
  "after_empty_search =
     snd (search_invoices known_bad_backend ''zzz'' False (initialize_cache True True 0))"

lemma after_missing_invoice_eq:
  "after_missing_invoice =
     \<lparr>cache = [(''invoice_detail_INV-404'', JNone)],
      cache_timestamps = [(''invoice_detail_INV-404'', 1)],
      cache_access_count = [(''invoice_detail_INV-404'', 1)],
      cache_hit_count = [(''invoice_detail_INV-404'', 0)],
      cache_miss_count = [(''invoice_detail_INV-404'', 0)],
      total_requests = 1, cache_hits = 0, cache_misses = 1, evictions = 0, cleanup_runs = 0,
      available_cosmos = True, available_search = True, cosmos_service = True,
      search_service = True, wall_clock = 1,
      backend_log = [Cosmos_get_invoice ''INV-404'']\<rparr>"
  by code_simp

lemma after_empty_search_eq:
  "after_empty_search =
     \<lparr>cache = [(''search_results_9e107d9d'', JList [])],
      cache_timestamps = [(''search_results_9e107d9d'', 2)],
      cache_access_count = [(''search_results_9e107d9d'', 1)],
      cache_hit_count = [(''search_results_9e107d9d'', 0)],
      cache_miss_count = [(''search_results_9e107d9d'', 0)],
      total_requests = 1, cache_hits = 0, cache_misses = 1, evictions = 0, cleanup_runs = 0,
      available_cosmos = True, available_search = True, cosmos_service = True,
      search_service = True, wall_clock = 2,
      backend_log = [Search_search_invoices ''zzz'', Cosmos_search_invoices ''zzz'']\<rparr>"
  by code_simp

lemma known_bad_search_key: "search_cache_key known_bad_backend ''zzz'' = ''search_results_9e107d9d''"
  by (simp add: search_cache_key_def known_bad_backend_def)

text \<open>
  C8 fails in its purpose clause. The query \<open>zzz\<close> finds nothing in the index and
  nothing in the document store; the empty list is stored under the key with the first
  eight characters of the digest and is valid at the time of the second call, and yet the
  second \<open>search_invoices\<close> queries the index and the document store again: the guard
  \<^verbatim>\<open>if cached_results:\<close> is false for the empty list.
\<close>

theorem C8_empty_result_is_searched_again:
  "fst (search_invoices known_bad_backend ''zzz'' False (initialize_cache True True 0))
     = Inr (JList []) \<and>
   map_of (cache after_empty_search) (search_cache_key known_bad_backend ''zzz'') = Some (JList []) \<and>
   is_cache_valid (wall_clock after_empty_search) (search_cache_key known_bad_backend ''zzz'')
     after_empty_search \<and>
   backend_log after_empty_search
     = [Search_search_invoices ''zzz'', Cosmos_search_invoices ''zzz''] \<and>
   backend_log (snd (search_invoices known_bad_backend ''zzz'' False after_empty_search))
     = [Search_search_invoices ''zzz'', Cosmos_search_invoices ''zzz'',
        Search_search_invoices ''zzz'', Cosmos_search_invoices ''zzz'']"
  unfolding after_empty_search_eq by code_simp

text \<open>
  More states with a falsy entry: after a listing and after statistics that came back
  empty, with an empty status stored under \<open>service_status_main\<close>, and after
  \<open>get_client_invoices("acme")\<close> in an environment whose search finds one invoice, of
  the client Acme Corp, so that the exact matches are none.
\<close>

definition acme_corp_invoice :: json where
  "acme_corp_invoice =
     JDict [(''id'', JStr ''INV-7''),
            (''invoice_data'', JDict [(''client'', JDict [(''name'', JStr ''Acme Corp'')])])]"

definition partial_match_backend :: env where
  "partial_match_backend =
     \<lparr>respond = (\<lambda>n c. (1, case c of
          Search_search_invoices query \<Rightarrow> Inr (JList [acme_corp_invoice])
        | _ \<Rightarrow> Inr (JList []))),
      md5_hexdigest = (\<lambda>text. ''9e107d9d372bb6826bd81d3542a419d6''),
      py_repr = (\<lambda>v. []), service_status = (\<lambda>s. []), cache_statistics = (\<lambda>s. JNone)\<rparr>"

definition after_client_lookup :: manager where
  "after_client_lookup =
     snd (get_client_invoices partial_match_backend ''acme'' False (initialize_cache True True 0))"

definition after_empty_listing :: manager where
  "after_empty_listing =
     snd (list_invoices known_bad_backend 10 False (initialize_cache True True 0))"

definition after_empty_statistics :: manager where
  "after_empty_statistics =
     snd (get_statistics known_bad_backend False (initialize_cache True True 0))"

definition empty_status_cached :: manager where
  "empty_status_cached =
     (case set_cache 0 ''service_status_main'' (JDict []) (initialize_cache True True 0) of
        Inl err \<Rightarrow> initialize_cache True True 0
      | Inr s \<Rightarrow> s)"

lemma after_client_lookup_eq:
  "after_client_lookup =
     \<lparr>cache = [(''search_results_9e107d9d'', JList [acme_corp_invoice]),
               (''client_data_acme'', JList [])],
      cache_timestamps = [(''search_results_9e107d9d'', 1), (''client_data_acme'', 1)],
      cache_access_count = [(''search_results_9e107d9d'', 1), (''client_data_acme'', 1)],
      cache_hit_count = [(''search_results_9e107d9d'', 0), (''client_data_acme'', 0)],
      cache_miss_count = [(''client_data_acme'', 0), (''search_results_9e107d9d'', 0)],
      total_requests = 2, cache_hits = 0, cache_misses = 2, evictions = 0, cleanup_runs = 0,
      available_cosmos = True, available_search = True, cosmos_service = True,
      search_service = True, wall_clock = 1,
      backend_log = [Search_search_invoices ''acme'']\<rparr>"
  by code_simp

lemma after_empty_listing_eq:
  "after_empty_listing =
     \<lparr>cache = [(''invoice_list_10'', JList [])],
      cache_timestamps = [(''invoice_list_10'', 1)],
      cache_access_count = [(''invoice_list_10'', 1)],
      cache_hit_count = [(''invoice_list_10'', 0)],
      cache_miss_count = [(''invoice_list_10'', 0)],
      total_requests = 1, cache_hits = 0, cache_misses = 1, evictions = 0, cleanup_runs = 0,
      available_cosmos = True, available_search = True, cosmos_service = True,
      search_service = True, wall_clock = 1,
      backend_log = [Cosmos_list_invoices 10]\<rparr>"
  by code_simp

lemma after_empty_statistics_eq:
  "after_empty_statistics =
     \<lparr>cache = [(''statistics_main'', JList [])],
      cache_timestamps = [(''statistics_main'', 1)],
      cache_access_count = [(''statistics_main'', 1)],
      cache_hit_count = [(''statistics_main'', 0)],
      cache_miss_count = [(''statistics_main'', 0)],
      total_requests = 1, cache_hits = 0, cache_misses = 1, evictions = 0, cleanup_runs = 0,
      available_cosmos = True, available_search = True, cosmos_service = True,
      search_service = True, wall_clock = 1,
      backend_log = [Cosmos_get_invoice_statistics]\<rparr>"
  by code_simp

lemma empty_status_cached_eq:
  "empty_status_cached =
     \<lparr>cache = [(''service_status_main'', JDict [])],
      cache_timestamps = [(''service_status_main'', 0)],
      cache_access_count = [(''service_status_main'', 1)],
      cache_hit_count = [(''service_status_main'', 0)],
      cache_miss_count = [(''service_status_main'', 0)],
      total_requests = 0, cache_hits = 0, cache_misses = 0, evictions = 0, cleanup_runs = 0,
      available_cosmos = True, available_search = True, cosmos_service = True,
      search_service = True, wall_clock = 0, backend_log = []\<rparr>"
  by code_simp

text \<open>
  C10 fails for \<open>get_client_invoices\<close> in its clause that a fresh backend fetch is
  performed. After \<open>get_client_invoices("acme")\<close> the empty list is cached under
  \<open>client_data_acme\<close> and the search results under their own key. The second call,
  within the TTL, does not return the cached empty list, but it makes no backend call
  either: its \<open>search_invoices\<close> answers from the cache, and the backend log is the
  same before and after.
\<close>

theorem C10_client_invoices_without_fetch_counterexample:
  "map_of (cache after_client_lookup) ''client_data_acme'' = Some (JList []) \<and>
   is_cache_valid (wall_clock after_client_lookup) ''client_data_acme'' after_client_lookup \<and>
   backend_log after_client_lookup = [Search_search_invoices ''acme''] \<and>
   fst (get_client_invoices partial_match_backend ''acme'' False after_client_lookup)
     = Inr (JList []) \<and>
   backend_log (snd (get_client_invoices partial_match_backend ''acme'' False after_client_lookup))
     = [Search_search_invoices ''acme'']"
  unfolding after_client_lookup_eq by code_simp

lemma client_key_acme_lower: "client_key_of ''acme'' = ''acme''"
  by code_simp

lemma client_lookup_search:
  "search_invoices partial_match_backend ''acme'' False
     (snd (get_from_cache (wall_clock after_client_lookup) ''client_data_acme'' after_client_lookup))
   = (Inr (JList [acme_corp_invoice]),
      snd (search_invoices partial_match_backend ''acme'' False
        (snd (get_from_cache (wall_clock after_client_lookup) ''client_data_acme''
           after_client_lookup)))) \<and>
   py_iter (JList [acme_corp_invoice]) = Inr [acme_corp_invoice] \<and>
   filter_client ''acme'' [acme_corp_invoice] = Inr []"
proof -
  have "fst (search_invoices partial_match_backend ''acme'' False
     (snd (get_from_cache (wall_clock after_client_lookup) ''client_data_acme'' after_client_lookup)))
    = Inr (JList [acme_corp_invoice])"
    unfolding after_client_lookup_eq by code_simp
  moreover have "filter_client ''acme'' [acme_corp_invoice] = Inr []"
    by code_simp
  ultimately show ?thesis by (simp add: prod_eq_iff)
qed

theorem C10_falsy_cached_value_is_refetched_witness:
  "cache_hits (snd (get_from_cache 1 ''invoice_detail_INV-404'' after_missing_invoice)) = 1 \<and>
   fst (get_invoice known_bad_backend ''INV-404'' False after_missing_invoice) = Inr JNone \<and>
   backend_log (snd (get_invoice known_bad_backend ''INV-404'' False after_missing_invoice))
     = [Cosmos_get_invoice ''INV-404'', Cosmos_get_invoice ''INV-404''] \<and>
   map_of (cache (snd (get_invoice known_bad_backend ''INV-404'' False after_missing_invoice)))
     ''invoice_detail_INV-404'' = Some JNone \<and>
   fst (search_invoices known_bad_backend ''zzz'' False after_empty_search) = Inr (JList []) \<and>
   backend_log (snd (search_invoices known_bad_backend ''zzz'' False after_empty_search))
     = [Search_search_invoices ''zzz'', Cosmos_search_invoices ''zzz'',
        Search_search_invoices ''zzz'', Cosmos_search_invoices ''zzz''] \<and>
   backend_log (snd (list_invoices known_bad_backend 10 False after_empty_listing))
     = [Cosmos_list_invoices 10, Cosmos_list_invoices 10] \<and>
   backend_log (snd (get_statistics known_bad_backend False after_empty_statistics))
     = [Cosmos_get_invoice_statistics, Cosmos_get_invoice_statistics] \<and>
   fst (get_service_status_cached known_bad_backend False empty_status_cached)
     = Inr (JDict [(''cache_statistics'', JNone)]) \<and>
   fst (get_client_invoices partial_match_backend ''acme'' False after_client_lookup)
     = Inr (JList []) \<and>
   map_of (cache (snd (get_client_invoices partial_match_backend ''acme'' False after_client_lookup)))
     ''client_data_acme'' = Some (JList [])"
proof -
  have v1: "cache_wf after_missing_invoice \<and>
      is_cache_valid (wall_clock after_missing_invoice) ''invoice_detail_INV-404''
        after_missing_invoice \<and>
      \<not> truthy (dict_get (cache after_missing_invoice) ''invoice_detail_INV-404'' JNone)"
    and a1: "''invoice_detail_INV-404'' = ''invoice_detail_'' @ ''INV-404'' \<and>
      available_cosmos after_missing_invoice \<and> cosmos_service after_missing_invoice"
    and w1: "wall_clock after_missing_invoice = 1"
      "backend_log after_missing_invoice = [Cosmos_get_invoice ''INV-404'']"
      "cache_hits after_missing_invoice = 0"
    by (simp_all add: after_missing_invoice_eq is_cache_valid_def split_head_def dict_get_def
        cache_ttl_def cache_wf_def)
  note c1 = C10_falsy_cached_value_is_refetched [where s = after_missing_invoice and key = "''invoice_detail_INV-404''"
      and e = known_bad_backend and n = "''INV-404''", THEN mp, OF v1]
  have hits: "cache_hits (snd (get_from_cache 1 ''invoice_detail_INV-404'' after_missing_invoice)) = 1"
    using c1 [THEN conjunct2, THEN conjunct1] w1 by simp
  note p1 = c1 [THEN conjunct2, THEN conjunct2, THEN conjunct2, THEN conjunct2, THEN conjunct2,
      THEN conjunct2, THEN conjunct1, THEN mp, OF a1]
  have inv: "fst (get_invoice known_bad_backend ''INV-404'' False after_missing_invoice) = Inr JNone \<and>
   backend_log (snd (get_invoice known_bad_backend ''INV-404'' False after_missing_invoice))
     = [Cosmos_get_invoice ''INV-404'', Cosmos_get_invoice ''INV-404''] \<and>
   map_of (cache (snd (get_invoice known_bad_backend ''INV-404'' False after_missing_invoice)))
     ''invoice_detail_INV-404'' = Some JNone"
    using fetched_and_cachedD [OF p1, of JNone] w1 by (simp add: known_bad_backend_def)
  have v2: "cache_wf after_empty_search \<and>
      is_cache_valid (wall_clock after_empty_search) ''search_results_9e107d9d''
        after_empty_search \<and>
      \<not> truthy (dict_get (cache after_empty_search) ''search_results_9e107d9d'' JNone)"
    and a2: "''search_results_9e107d9d'' = search_cache_key known_bad_backend ''zzz'' \<and>
      available_search after_empty_search \<and> search_service after_empty_search \<and>
      available_cosmos after_empty_search \<and> cosmos_service after_empty_search"
    and w2: "backend_log after_empty_search
         = [Search_search_invoices ''zzz'', Cosmos_search_invoices ''zzz'']"
    by (simp_all add: after_empty_search_eq is_cache_valid_def split_head_def dict_get_def
        cache_ttl_def cache_wf_def known_bad_search_key)
  note c2 = C10_falsy_cached_value_is_refetched [where s = after_empty_search and key = "''search_results_9e107d9d''"
      and e = known_bad_backend and query = "''zzz''", THEN mp, OF v2]
  note p2 = c2 [THEN conjunct2, THEN conjunct2, THEN conjunct2, THEN conjunct2, THEN conjunct2,
      THEN conjunct2, THEN conjunct2, THEN conjunct1, THEN mp, OF a2]
  have srch: "fst (search_invoices known_bad_backend ''zzz'' False after_empty_search) = Inr (JList []) \<and>
   backend_log (snd (search_invoices known_bad_backend ''zzz'' False after_empty_search))
     = [Search_search_invoices ''zzz'', Cosmos_search_invoices ''zzz'',
        Search_search_invoices ''zzz'', Cosmos_search_invoices ''zzz'']"
    using searched_and_cachedD [OF p2, of "JList []"] w2 by (simp add: known_bad_backend_def)
  have v3: "cache_wf after_empty_listing \<and>
      is_cache_valid (wall_clock after_empty_listing) ''invoice_list_10'' after_empty_listing \<and>
      \<not> truthy (dict_get (cache after_empty_listing) ''invoice_list_10'' JNone)"
    and a3: "available_cosmos after_empty_listing \<and> cosmos_service after_empty_listing"
    and w3: "backend_log after_empty_listing = [Cosmos_list_invoices 10]"
    by (simp_all add: after_empty_listing_eq is_cache_valid_def split_head_def dict_get_def
        cache_ttl_def cache_wf_def)
  have k3: "''invoice_list_10'' = ''invoice_list_'' @ str_of_int 10" by code_simp
  note c3 = C10_falsy_cached_value_is_refetched [where s = after_empty_listing and key = "''invoice_list_10''"
      and e = known_bad_backend and limit = 10, THEN mp, OF v3]
  note p3 = c3 [THEN conjunct2, THEN conjunct2, THEN conjunct2, THEN conjunct2, THEN conjunct2,
      THEN conjunct1, THEN mp, OF conjI [OF k3 a3]]
  have lst: "backend_log (snd (list_invoices known_bad_backend 10 False after_empty_listing))
     = [Cosmos_list_invoices 10, Cosmos_list_invoices 10]"
    using fetched_and_cachedD(2) [OF p3, of "JList []"] w3 by (simp add: known_bad_backend_def)
  have v4: "cache_wf after_empty_statistics \<and>
      is_cache_valid (wall_clock after_empty_statistics) ''statistics_main'' after_empty_statistics \<and>
      \<not> truthy (dict_get (cache after_empty_statistics) ''statistics_main'' JNone)"
    and a4: "''statistics_main'' = ''statistics_main'' \<and>
      available_cosmos after_empty_statistics \<and> cosmos_service after_empty_statistics"
    and w4: "backend_log after_empty_statistics = [Cosmos_get_invoice_statistics]"
    by (simp_all add: after_empty_statistics_eq is_cache_valid_def split_head_def dict_get_def
        cache_ttl_def cache_wf_def)
  note c4 = C10_falsy_cached_value_is_refetched [where s = after_empty_statistics and key = "''statistics_main''"
      and e = known_bad_backend, THEN mp, OF v4]
  note p4 = c4 [THEN conjunct2, THEN conjunct2, THEN conjunct2, THEN conjunct2,
      THEN conjunct1, THEN mp, OF a4]
  have sts: "backend_log (snd (get_statistics known_bad_backend False after_empty_statistics))
     = [Cosmos_get_invoice_statistics, Cosmos_get_invoice_statistics]"
    using fetched_and_cachedD(2) [OF p4, of "JList []"] w4 by (simp add: known_bad_backend_def)
  have v5: "cache_wf empty_status_cached \<and>
      is_cache_valid (wall_clock empty_status_cached) ''service_status_main'' empty_status_cached \<and>
      \<not> truthy (dict_get (cache empty_status_cached) ''service_status_main'' JNone)"
    by (simp add: empty_status_cached_eq is_cache_valid_def split_head_def dict_get_def
        cache_ttl_def cache_wf_def)
  note c5 = C10_falsy_cached_value_is_refetched [where s = empty_status_cached and key = "''service_status_main''"
      and e = known_bad_backend, THEN mp, OF v5]
  note p5 = c5 [THEN conjunct2, THEN conjunct2, THEN conjunct2, THEN conjunct2, THEN conjunct2,
      THEN conjunct2, THEN conjunct2, THEN conjunct2, THEN conjunct1, THEN mp, OF refl]
  have stat: "fst (get_service_status_cached known_bad_backend False empty_status_cached)
     = Inr (JDict [(''cache_statistics'', JNone)])"
    using p5 [THEN conjunct1] by (simp add: known_bad_backend_def)
  have v6: "cache_wf after_client_lookup \<and>
      is_cache_valid (wall_clock after_client_lookup) ''client_data_acme'' after_client_lookup \<and>
      \<not> truthy (dict_get (cache after_client_lookup) ''client_data_acme'' JNone)"
    by (simp add: after_client_lookup_eq is_cache_valid_def split_head_def dict_get_def
        cache_ttl_def cache_wf_def)
  have a6: "''client_data_acme'' = ''client_data_'' @ client_key_of ''acme''"
    by (simp add: client_key_acme_lower)
  note c6 = C10_falsy_cached_value_is_refetched [where s = after_client_lookup and key = "''client_data_acme''"
      and e = partial_match_backend and c = "''acme''", THEN mp, OF v6]
  note p6 = c6 [THEN conjunct2, THEN conjunct2, THEN conjunct2, THEN conjunct2, THEN conjunct2,
      THEN conjunct2, THEN conjunct2, THEN conjunct2, THEN conjunct2, THEN mp, OF a6,
      rule_format, OF client_lookup_search]
  have cli: "fst (get_client_invoices partial_match_backend ''acme'' False after_client_lookup)
     = Inr (JList []) \<and>
   map_of (cache (snd (get_client_invoices partial_match_backend ''acme'' False after_client_lookup)))
     ''client_data_acme'' = Some (JList [])"
    using p6 by simp
  from hits inv srch lst sts stat cli show ?thesis by (intro conjI) (simp_all only:)
qed


text \<open>Invalidation after a write.\<close>

lemma set_cache_keys_remove:
  "set (cache_keys (remove_cache_entry k s)) = set (cache_keys s) - {k}"
  by (simp add: cache_keys_remove)

lemma invalidate_after_save_keys:
  assumes "invalidate_after_save e doc s = (None, s')"
  shows "(\<forall>k \<in> set (cache_keys s'). \<not> py_in ''statistics'' k \<and> \<not> py_in ''invoice_list'' k) \<and>
     (\<forall>num. py_get doc ''invoice_number'' JNone = Inr num \<and> truthy num \<longrightarrow>
        ''invoice_detail_'' @ py_str e num \<notin> set (cache_keys s')) \<and>
     (\<forall>client name. py_get doc ''client'' (JDict []) = Inr client \<and>
        py_get client ''name'' (JStr []) = Inr (JStr name) \<and> name \<noteq> [] \<longrightarrow>
        ''client_data_'' @ client_key_of name \<notin> set (cache_keys s')) \<and>
     same_services s s' \<and> (cache_wf s \<longrightarrow> cache_wf s')"
proof -
  from assms obtain num client cname where
    g: "py_get doc ''invoice_number'' JNone = Inr num"
       "py_get doc ''client'' (JDict []) = Inr client"
       "py_get client ''name'' (JStr []) = Inr cname"
    by (auto simp: invalidate_after_save_def split: sum.splits)
  define s2 where "s2 = clear_cache (Some ''invoice_list'') (clear_cache (Some ''statistics'') s)"
  define s3 where "s3 = (if truthy num
      then remove_cache_entry (''invoice_detail_'' @ py_str e num) s2 else s2)"
  have k2: "set (cache_keys s2)
      = {k \<in> set (cache_keys s). \<not> py_in ''statistics'' k \<and> \<not> py_in ''invoice_list'' k}"
    unfolding s2_def by (auto simp: cache_keys_clear)
  have k3: "set (cache_keys s3) \<subseteq> set (cache_keys s2)"
      "truthy num \<Longrightarrow> ''invoice_detail_'' @ py_str e num \<notin> set (cache_keys s3)"
    unfolding s3_def by (auto simp: set_cache_keys_remove)
  have f2: "same_services s s2" unfolding s2_def
    using same_services_trans [OF same_services_clear same_services_clear] .
  have f3: "same_services s s3" unfolding s3_def
    using same_services_trans [OF f2 same_services_remove] f2 by simp
  have w3: "cache_wf s \<Longrightarrow> cache_wf s3"
    unfolding s3_def s2_def by (simp add: cache_wf_clear cache_wf_remove)
  from assms g have s': "s' = (if truthy cname
      then (case cname of JStr name \<Rightarrow> remove_cache_entry (''client_data_'' @ client_key_of name) s3
            | _ \<Rightarrow> s3) else s3)"
    and shape: "truthy cname \<longrightarrow> (\<exists>name. cname = JStr name)"
    by (auto simp: invalidate_after_save_def Let_def s3_def s2_def split: json.splits if_splits)
  have k': "set (cache_keys s') \<subseteq> set (cache_keys s3)"
      "\<And>name. cname = JStr name \<Longrightarrow> name \<noteq> [] \<Longrightarrow>
         ''client_data_'' @ client_key_of name \<notin> set (cache_keys s')"
    unfolding s' by (auto simp: set_cache_keys_remove split: json.splits)
  have f': "same_services s s'"
    unfolding s' using f3 same_services_trans [OF f3 same_services_remove]
    by (auto split: json.splits)
  have w': "cache_wf s \<Longrightarrow> cache_wf s'"
    unfolding s' using w3 by (auto simp: cache_wf_remove split: json.splits)
  from k2 k3 k' f' w' g show ?thesis by auto
qed

lemma save_invoice_success:
  assumes "save_invoice e doc s = (Inr r, s')" and "truthy (cosmos_saved r)"
  obtains s2 where "invalidate_after_save e doc s2 = (None, s')"
    and "available_cosmos s2" and "cosmos_service s2"
    and "cache_wf s \<longrightarrow> cache_wf s2"
proof -
  from assms have av: "available_cosmos s \<and> cosmos_service s"
    by (auto simp: save_invoice_def call_backend_def Let_def
        split: prod.splits sum.splits if_splits option.splits)
  obtain a1 s1 where c1: "call_backend e (Cosmos_save_invoice doc) s = (a1, s1)"
    by (cases "call_backend e (Cosmos_save_invoice doc) s")
  have s1: "available_cosmos s1" "cosmos_service s1" "cache_wf s \<longrightarrow> cache_wf s1"
      "available_search s1 = available_search s" "search_service s1 = search_service s"
    using call_backend_facts [OF c1] av cache_wf_call_backend [of s e "Cosmos_save_invoice doc"] c1
    by auto
  obtain a2 s2 where c2: "call_backend e (Search_index_invoice doc) s1 = (a2, s2)"
    by (cases "call_backend e (Search_index_invoice doc) s1")
  have s2: "available_cosmos s2" "cosmos_service s2" "cache_wf s \<longrightarrow> cache_wf s2"
    using call_backend_facts [OF c2] s1 cache_wf_call_backend [of s1 e "Search_index_invoice doc"] c2
    by auto
  show ?thesis
  proof (cases "available_search s1 \<and> search_service s1")
    case True
    with assms av c1 c2 have "invalidate_after_save e doc s2 = (None, s')"
      by (cases a1; cases a2)
        (auto simp: save_invoice_def Let_def split: prod.splits option.splits if_splits)
    with s2 that show ?thesis by blast
  next
    case False
    with assms av c1 have "invalidate_after_save e doc s1 = (None, s')"
      by (cases a1)
        (auto simp: save_invoice_def Let_def split: prod.splits option.splits if_splits)
    with s1 that show ?thesis by blast
  qed
qed

lemma update_invoice_status_success:
  assumes "update_invoice_status e n st s = (Inr success, s')" and "truthy success"
  obtains s2 where "s' = invalidate_after_status_update n s2"
    and "available_cosmos s2" and "cosmos_service s2"
    and "cache_wf s \<longrightarrow> cache_wf s2"
proof -
  from assms have av: "available_cosmos s \<and> cosmos_service s"
    by (auto simp: update_invoice_status_def call_backend_def Let_def
        split: prod.splits sum.splits if_splits)
  obtain a1 s1 where c1: "call_backend e (Cosmos_update_invoice_status n st) s = (a1, s1)"
    by (cases "call_backend e (Cosmos_update_invoice_status n st) s")
  have s1: "available_cosmos s1" "cosmos_service s1" "cache_wf s \<longrightarrow> cache_wf s1"
    using call_backend_facts [OF c1] av
      cache_wf_call_backend [of s e "Cosmos_update_invoice_status n st"] c1
    by auto
  obtain a2 s2 where c2: "call_backend e (Search_update_invoice_status_in_index n st) s1 = (a2, s2)"
    by (cases "call_backend e (Search_update_invoice_status_in_index n st) s1")
  have s2: "available_cosmos s2" "cosmos_service s2" "cache_wf s \<longrightarrow> cache_wf s2"
    using call_backend_facts [OF c2] s1
      cache_wf_call_backend [of s1 e "Search_update_invoice_status_in_index n st"] c2
    by auto
  show ?thesis
  proof (cases "available_search s1 \<and> search_service s1")
    case True
    with assms av c1 c2 have "s' = invalidate_after_status_update n s2"
      by (cases a1; cases a2) (auto simp: update_invoice_status_def split: if_splits)
    with s2 that show ?thesis by blast
  next
    case False
    with assms av c1 have "s' = invalidate_after_status_update n s1"
      by (cases a1) (auto simp: update_invoice_status_def split: if_splits)
    with s1 that show ?thesis by blast
  qed
qed

lemma invalidate_after_status_update_frame:
  "same_services s (invalidate_after_status_update n s) \<and>
   (cache_wf s \<longrightarrow> cache_wf (invalidate_after_status_update n s))"
proof -
  let ?s1 = "clear_cache (Some ''statistics'') s"
  let ?s2 = "remove_cache_entry (''invoice_detail_'' @ n) ?s1"
  have "same_services s ?s2"
    using same_services_trans [OF same_services_clear same_services_remove] .
  from same_services_trans [OF this same_services_fold_remove]
  have "same_services s (invalidate_after_status_update n s)"
    by (simp add: invalidate_after_status_update_def Let_def)
  moreover have "cache_wf s \<longrightarrow> cache_wf (invalidate_after_status_update n s)"
    by (simp add: invalidate_after_status_update_def Let_def cache_wf_fold_remove
        cache_wf_remove cache_wf_clear)
  ultimately show ?thesis by blast
qed

text \<open>A read of a key that is not in the cache goes to the backend.\<close>

lemma absent_key_no_timestamp:
  "cache_wf s \<Longrightarrow> key \<notin> set (cache_keys s) \<Longrightarrow> map_of (cache_timestamps s) key = None"
  by (simp add: cache_wf_def cache_keys_def map_of_eq_None_iff)

lemma refetch_after_miss:
  assumes "cache_wf s" and "key \<notin> set (cache_keys s)"
  obtains s1 where "cached_read False key s = (None, s1)" and "cache_wf s1"
    and "same_services s s1"
proof -
  let ?s1 = "s\<lparr>total_requests := total_requests s + 1,
              cache_miss_count :=
                AList.update key (dict_get (cache_miss_count s) key 0 + 1) (cache_miss_count s),
              cache_misses := cache_misses s + 1\<rparr>"
  have "cached_read False key s = (None, ?s1)"
    by (rule cached_read_absent [OF absent_key_no_timestamp [OF assms]])
  moreover have "cache_wf ?s1" using assms(1) by (simp add: cache_wf_def)
  moreover have "same_services s ?s1" by (simp add: same_services_def)
  ultimately show ?thesis using that by blast
qed

lemma get_statistics_refetch:
  assumes "cache_wf s" and "''statistics_main'' \<notin> set (cache_keys s)"
    and "available_cosmos s" and "cosmos_service s"
  shows "backend_log (snd (get_statistics e False s))
           = backend_log s @ [Cosmos_get_invoice_statistics] \<and>
         fst (get_statistics e False s)
           = snd (respond e (length (backend_log s)) Cosmos_get_invoice_statistics)"
proof -
  from refetch_after_miss [OF assms(1,2)] obtain s1 where
    s1: "cached_read False ''statistics_main'' s = (None, s1)" "cache_wf s1" "same_services s s1"
    by blast
  with assms have "get_statistics e False s
      = fetch_and_store e Cosmos_get_invoice_statistics ''statistics_main'' s1"
    by (simp add: get_statistics_def fetch_and_store_def same_services_def)
  with fetch_and_store_log [of e Cosmos_get_invoice_statistics "''statistics_main''" s1]
    fetch_and_store_result [OF s1(2), of e Cosmos_get_invoice_statistics "''statistics_main''"]
    s1(3)
  show ?thesis by (simp add: same_services_def)
qed

lemma list_invoices_refetch:
  assumes "cache_wf s" and "''invoice_list_'' @ str_of_int limit \<notin> set (cache_keys s)"
    and "available_cosmos s" and "cosmos_service s"
  shows "backend_log (snd (list_invoices e limit False s))
           = backend_log s @ [Cosmos_list_invoices limit] \<and>
         fst (list_invoices e limit False s)
           = snd (respond e (length (backend_log s)) (Cosmos_list_invoices limit))"
proof -
  let ?key = "''invoice_list_'' @ str_of_int limit"
  from refetch_after_miss [OF assms(1,2)] obtain s1 where
    s1: "cached_read False ?key s = (None, s1)" "cache_wf s1" "same_services s s1"
    by blast
  with assms have "list_invoices e limit False s
      = fetch_and_store e (Cosmos_list_invoices limit) ?key s1"
    by (simp add: list_invoices_def fetch_and_store_def same_services_def)
  with fetch_and_store_log [of e "Cosmos_list_invoices limit" ?key s1]
    fetch_and_store_result [OF s1(2), of e "Cosmos_list_invoices limit" ?key]
    s1(3)
  show ?thesis by (simp add: same_services_def)
qed

lemma category_keys:
  "py_in ''statistics'' ''statistics_main''"
  "py_in ''invoice_list'' (''invoice_list_'' @ rest)"
proof -
  show "py_in ''statistics'' ''statistics_main''" by simp
  have "''invoice_list_'' @ rest = [] @ ''invoice_list'' @ (CHR ''_'' # rest)" by simp
  then show "py_in ''invoice_list'' (''invoice_list_'' @ rest)"
    unfolding py_in_iff by blast
qed

lemma advance_frame:
  "cache_keys (advance d s) = cache_keys s" "cache_wf (advance d s) = cache_wf s"
  "available_cosmos (advance d s) = available_cosmos s"
  "cosmos_service (advance d s) = cosmos_service s"
  "backend_log (advance d s) = backend_log s"
  by (simp_all add: advance_def cache_keys_def cache_wf_def)


text \<open>
  What the two writes clear. On a well-formed cache: after a \<open>save_invoice\<close> whose
  document-store save is reported true, no key that contains \<open>statistics\<close> or
  \<open>invoice_list\<close> is left, nor the \<open>invoice_detail\<close> key of the invoice number (when it is
  truthy), nor the \<open>client_data\<close> key of the client (when the name is a non-empty
  string), and a following \<open>get_statistics\<close> or \<open>list_invoices\<close>, at any later time,
  calls the document store and returns its answer. After an \<open>update_invoice_status\<close>
  that succeeds, no key that contains \<open>statistics\<close> or starts with \<open>search_results\<close> is
  left, nor the \<open>invoice_detail\<close> key of the invoice, and a following \<open>get_statistics\<close>
  calls the document store and returns its answer.
\<close>

lemma write_invalidation:
  "cache_wf s \<longrightarrow>
     (save_invoice e doc s = (Inr r, s') \<and> truthy (cosmos_saved r) \<longrightarrow>
        (\<forall>k \<in> set (cache_keys s'). \<not> py_in ''statistics'' k \<and> \<not> py_in ''invoice_list'' k) \<and>
        (\<forall>num. py_get doc ''invoice_number'' JNone = Inr num \<and> truthy num \<longrightarrow>
           ''invoice_detail_'' @ py_str e num \<notin> set (cache_keys s')) \<and>
        (\<forall>client name. py_get doc ''client'' (JDict []) = Inr client \<and>
           py_get client ''name'' (JStr []) = Inr (JStr name) \<and> name \<noteq> [] \<longrightarrow>
           ''client_data_'' @ client_key_of name \<notin> set (cache_keys s')) \<and>
        backend_log (snd (get_statistics e False (advance d s')))
          = backend_log s' @ [Cosmos_get_invoice_statistics] \<and>
        fst (get_statistics e False (advance d s'))
          = snd (respond e (length (backend_log s')) Cosmos_get_invoice_statistics) \<and>
        backend_log (snd (list_invoices e limit False (advance d s')))
          = backend_log s' @ [Cosmos_list_invoices limit] \<and>
        fst (list_invoices e limit False (advance d s'))
          = snd (respond e (length (backend_log s')) (Cosmos_list_invoices limit))) \<and>
     (update_invoice_status e n status s = (Inr success, s'') \<and> truthy success \<longrightarrow>
        (\<forall>k \<in> set (cache_keys s''). \<not> py_in ''statistics'' k \<and> \<not> prefix ''search_results'' k) \<and>
        ''invoice_detail_'' @ n \<notin> set (cache_keys s'') \<and>
        backend_log (snd (get_statistics e False (advance d s'')))
          = backend_log s'' @ [Cosmos_get_invoice_statistics] \<and>
        fst (get_statistics e False (advance d s''))
          = snd (respond e (length (backend_log s'')) Cosmos_get_invoice_statistics))"
proof
  assume wf: "cache_wf s"
  have save: "save_invoice e doc s = (Inr r, s') \<and> truthy (cosmos_saved r) \<longrightarrow>
        (\<forall>k \<in> set (cache_keys s'). \<not> py_in ''statistics'' k \<and> \<not> py_in ''invoice_list'' k) \<and>
        (\<forall>num. py_get doc ''invoice_number'' JNone = Inr num \<and> truthy num \<longrightarrow>
           ''invoice_detail_'' @ py_str e num \<notin> set (cache_keys s')) \<and>
        (\<forall>client name. py_get doc ''client'' (JDict []) = Inr client \<and>
           py_get client ''name'' (JStr []) = Inr (JStr name) \<and> name \<noteq> [] \<longrightarrow>
           ''client_data_'' @ client_key_of name \<notin> set (cache_keys s')) \<and>
        backend_log (snd (get_statistics e False (advance d s')))
          = backend_log s' @ [Cosmos_get_invoice_statistics] \<and>
        fst (get_statistics e False (advance d s'))
          = snd (respond e (length (backend_log s')) Cosmos_get_invoice_statistics) \<and>
        backend_log (snd (list_invoices e limit False (advance d s')))
          = backend_log s' @ [Cosmos_list_invoices limit] \<and>
        fst (list_invoices e limit False (advance d s'))
          = snd (respond e (length (backend_log s')) (Cosmos_list_invoices limit))"
  proof
    assume h: "save_invoice e doc s = (Inr r, s') \<and> truthy (cosmos_saved r)"
    then obtain s2 where s2: "invalidate_after_save e doc s2 = (None, s')"
        "available_cosmos s2" "cosmos_service s2" "cache_wf s \<longrightarrow> cache_wf s2"
      using save_invoice_success [of e doc s r s'] by blast
    note k = invalidate_after_save_keys [OF s2(1)]
    from k s2 wf have fr: "cache_wf s'" "available_cosmos s'" "cosmos_service s'"
      by (simp_all add: same_services_def)
    from k have no: "''statistics_main'' \<notin> set (cache_keys s')"
        "''invoice_list_'' @ str_of_int limit \<notin> set (cache_keys s')"
      using category_keys by blast+
    from fr no have st: "backend_log (snd (get_statistics e False (advance d s')))
          = backend_log s' @ [Cosmos_get_invoice_statistics] \<and>
        fst (get_statistics e False (advance d s'))
          = snd (respond e (length (backend_log s')) Cosmos_get_invoice_statistics)"
      using get_statistics_refetch [of "advance d s'" e] by (simp add: advance_frame)
    from fr no have li: "backend_log (snd (list_invoices e limit False (advance d s')))
          = backend_log s' @ [Cosmos_list_invoices limit] \<and>
        fst (list_invoices e limit False (advance d s'))
          = snd (respond e (length (backend_log s')) (Cosmos_list_invoices limit))"
      using list_invoices_refetch [of "advance d s'" limit e] by (simp add: advance_frame)
    from k [THEN conjunct1] k [THEN conjunct2, THEN conjunct1]
      k [THEN conjunct2, THEN conjunct2, THEN conjunct1]
      st [THEN conjunct1] st [THEN conjunct2] li [THEN conjunct1] li [THEN conjunct2]
    show "(\<forall>k \<in> set (cache_keys s'). \<not> py_in ''statistics'' k \<and> \<not> py_in ''invoice_list'' k) \<and>
        (\<forall>num. py_get doc ''invoice_number'' JNone = Inr num \<and> truthy num \<longrightarrow>
           ''invoice_detail_'' @ py_str e num \<notin> set (cache_keys s')) \<and>
        (\<forall>client name. py_get doc ''client'' (JDict []) = Inr client \<and>
           py_get client ''name'' (JStr []) = Inr (JStr name) \<and> name \<noteq> [] \<longrightarrow>
           ''client_data_'' @ client_key_of name \<notin> set (cache_keys s')) \<and>
        backend_log (snd (get_statistics e False (advance d s')))
          = backend_log s' @ [Cosmos_get_invoice_statistics] \<and>
        fst (get_statistics e False (advance d s'))
          = snd (respond e (length (backend_log s')) Cosmos_get_invoice_statistics) \<and>
        backend_log (snd (list_invoices e limit False (advance d s')))
          = backend_log s' @ [Cosmos_list_invoices limit] \<and>
        fst (list_invoices e limit False (advance d s'))
          = snd (respond e (length (backend_log s')) (Cosmos_list_invoices limit))"
      by (intro conjI) assumption+
  qed
  have upd: "update_invoice_status e n status s = (Inr success, s'') \<and> truthy success \<longrightarrow>
        (\<forall>k \<in> set (cache_keys s''). \<not> py_in ''statistics'' k \<and> \<not> prefix ''search_results'' k) \<and>
        ''invoice_detail_'' @ n \<notin> set (cache_keys s'') \<and>
        backend_log (snd (get_statistics e False (advance d s'')))
          = backend_log s'' @ [Cosmos_get_invoice_statistics] \<and>
        fst (get_statistics e False (advance d s''))
          = snd (respond e (length (backend_log s'')) Cosmos_get_invoice_statistics)"
  proof
    assume h: "update_invoice_status e n status s = (Inr success, s'') \<and> truthy success"
    then obtain s2 where s2: "s'' = invalidate_after_status_update n s2"
        "available_cosmos s2" "cosmos_service s2" "cache_wf s \<longrightarrow> cache_wf s2"
      using update_invoice_status_success [of e n status s success s''] by blast
    note ks = cache_keys_status_update [of n s2, folded s2(1)]
    from invalidate_after_status_update_frame [of s2 n] s2 wf
    have fr: "cache_wf s''" "available_cosmos s''" "cosmos_service s''"
      by (simp_all add: same_services_def)
    from ks have k1: "\<forall>k \<in> set (cache_keys s''). \<not> py_in ''statistics'' k \<and> \<not> prefix ''search_results'' k"
      and k2: "''invoice_detail_'' @ n \<notin> set (cache_keys s'')"
      by auto
    from k1 have no: "''statistics_main'' \<notin> set (cache_keys s'')"
      using category_keys(1) by blast
    from fr no have st: "backend_log (snd (get_statistics e False (advance d s'')))
          = backend_log s'' @ [Cosmos_get_invoice_statistics] \<and>
        fst (get_statistics e False (advance d s''))
          = snd (respond e (length (backend_log s'')) Cosmos_get_invoice_statistics)"
      using get_statistics_refetch [of "advance d s''" e] by (simp add: advance_frame)
    from k1 k2 st [THEN conjunct1] st [THEN conjunct2]
    show "(\<forall>k \<in> set (cache_keys s''). \<not> py_in ''statistics'' k \<and> \<not> prefix ''search_results'' k) \<and>
        ''invoice_detail_'' @ n \<notin> set (cache_keys s'') \<and>
        backend_log (snd (get_statistics e False (advance d s'')))
          = backend_log s'' @ [Cosmos_get_invoice_statistics] \<and>
        fst (get_statistics e False (advance d s''))
          = snd (respond e (length (backend_log s'')) Cosmos_get_invoice_statistics)"
      by (intro conjI) assumption+
  qed
  from save upd show "(save_invoice e doc s = (Inr r, s') \<and> truthy (cosmos_saved r) \<longrightarrow>
        (\<forall>k \<in> set (cache_keys s'). \<not> py_in ''statistics'' k \<and> \<not> py_in ''invoice_list'' k) \<and>
        (\<forall>num. py_get doc ''invoice_number'' JNone = Inr num \<and> truthy num \<longrightarrow>
           ''invoice_detail_'' @ py_str e num \<notin> set (cache_keys s')) \<and>
        (\<forall>client name. py_get doc ''client'' (JDict []) = Inr client \<and>
           py_get client ''name'' (JStr []) = Inr (JStr name) \<and> name \<noteq> [] \<longrightarrow>
           ''client_data_'' @ client_key_of name \<notin> set (cache_keys s')) \<and>
        backend_log (snd (get_statistics e False (advance d s')))
          = backend_log s' @ [Cosmos_get_invoice_statistics] \<and>
        fst (get_statistics e False (advance d s'))
          = snd (respond e (length (backend_log s')) Cosmos_get_invoice_statistics) \<and>
        backend_log (snd (list_invoices e limit False (advance d s')))
          = backend_log s' @ [Cosmos_list_invoices limit] \<and>
        fst (list_invoices e limit False (advance d s'))
          = snd (respond e (length (backend_log s')) (Cosmos_list_invoices limit))) \<and>
     (update_invoice_status e n status s = (Inr success, s'') \<and> truthy success \<longrightarrow>
        (\<forall>k \<in> set (cache_keys s''). \<not> py_in ''statistics'' k \<and> \<not> prefix ''search_results'' k) \<and>
        ''invoice_detail_'' @ n \<notin> set (cache_keys s'') \<and>
        backend_log (snd (get_statistics e False (advance d s'')))
          = backend_log s'' @ [Cosmos_get_invoice_statistics] \<and>
        fst (get_statistics e False (advance d s''))
          = snd (respond e (length (backend_log s'')) Cosmos_get_invoice_statistics))"
    by (rule conjI)
qed



text \<open>
  An environment with one invoice of the client Acme, whose listing shows the status
  \<open>paid\<close> from the fifth backend call on, and a cache warmed by \<open>list_invoices(10)\<close> and
  \<open>get_client_invoices("Acme")\<close>.
\<close>

definition invoice_doc :: "string \<Rightarrow> json" where
  "invoice_doc status =
     JDict [(''id'', JStr ''INV-1''), (''status'', JStr status),
            (''invoice_data'', JDict [(''client'', JDict [(''name'', JStr ''Acme'')])])]"

definition billing_backend :: env where
  "billing_backend =
     \<lparr>respond = (\<lambda>n c. (1,
          case c of
            Cosmos_list_invoices limit \<Rightarrow>
              Inr (JList [invoice_doc (if n < 4 then ''active'' else ''paid'')])
          | Search_search_invoices query \<Rightarrow> Inr (JList [invoice_doc ''active''])
          | Cosmos_update_invoice_status number status \<Rightarrow> Inr (JBool True)
          | Cosmos_save_invoice doc \<Rightarrow> Inr (JBool True)
          | Search_index_invoice doc \<Rightarrow> Inr (JBool True)
          | Cosmos_get_invoice_statistics \<Rightarrow> Inr (JDict [(''total_invoices'', JNum 1)])
          | _ \<Rightarrow> Inr JNone)),
      md5_hexdigest = (\<lambda>text. ''9e107d9d372bb6826bd81d3542a419d6''),
      py_repr = (\<lambda>v. []), service_status = (\<lambda>s. []), cache_statistics = (\<lambda>s. JNone)\<rparr>"

definition warm_cache :: manager where
  "warm_cache =
     snd (get_client_invoices billing_backend ''Acme'' False
       (snd (list_invoices billing_backend 10 False (initialize_cache True True 0))))"

lemma client_key_acme: "client_key_of ''Acme'' = ''acme''"
  by code_simp

definition new_invoice :: json where
  "new_invoice =
     JDict [(''invoice_number'', JStr ''INV-2''), (''client'', JDict [(''name'', JStr ''Acme'')])]"

lemma warm_cache_eq:
  "warm_cache =
     \<lparr>cache = [(''invoice_list_10'', JList [invoice_doc ''active'']),
               (''search_results_9e107d9d'', JList [invoice_doc ''active'']),
               (''client_data_acme'', JList [invoice_doc ''active''])],
      cache_timestamps = [(''invoice_list_10'', 1), (''search_results_9e107d9d'', 2),
               (''client_data_acme'', 2)],
      cache_access_count = [(''invoice_list_10'', 1), (''search_results_9e107d9d'', 1),
               (''client_data_acme'', 1)],
      cache_hit_count = [(''invoice_list_10'', 0), (''search_results_9e107d9d'', 0),
               (''client_data_acme'', 0)],
      cache_miss_count = [(''invoice_list_10'', 0), (''client_data_acme'', 0),
               (''search_results_9e107d9d'', 0)],
      total_requests = 3, cache_hits = 0, cache_misses = 3, evictions = 0, cleanup_runs = 0,
      available_cosmos = True, available_search = True, cosmos_service = True,
      search_service = True, wall_clock = 2,
      backend_log = [Cosmos_list_invoices 10, Search_search_invoices ''Acme'']\<rparr>"
  by code_simp

definition after_status_update :: manager where
  "after_status_update = snd (update_invoice_status billing_backend ''INV-1'' ''paid'' warm_cache)"

definition after_save :: manager where
  "after_save = snd (save_invoice billing_backend new_invoice warm_cache)"

lemma after_status_update_eq:
  "update_invoice_status billing_backend ''INV-1'' ''paid'' warm_cache =
     (Inr (JBool True),
      \<lparr>cache = [(''invoice_list_10'', JList [invoice_doc ''active'']),
               (''client_data_acme'', JList [invoice_doc ''active''])],
      cache_timestamps = [(''invoice_list_10'', 1), (''client_data_acme'', 2)],
      cache_access_count = [(''invoice_list_10'', 1), (''client_data_acme'', 1)],
      cache_hit_count = [(''invoice_list_10'', 0), (''client_data_acme'', 0)],
      cache_miss_count = [(''invoice_list_10'', 0), (''client_data_acme'', 0)],
      total_requests = 3, cache_hits = 0, cache_misses = 3, evictions = 0, cleanup_runs = 0,
      available_cosmos = True, available_search = True, cosmos_service = True,
      search_service = True, wall_clock = 4,
      backend_log = [Cosmos_list_invoices 10, Search_search_invoices ''Acme'',
        Cosmos_update_invoice_status ''INV-1'' ''paid'',
        Search_update_invoice_status_in_index ''INV-1'' ''paid'']\<rparr>)"
  unfolding warm_cache_eq by code_simp

lemma after_save_eq:
  "save_invoice billing_backend new_invoice warm_cache =
     (Inr \<lparr>cosmos_saved = JBool True, search_indexed = JBool True, storage_warnings = []\<rparr>,
      \<lparr>cache = [(''search_results_9e107d9d'', JList [invoice_doc ''active''])],
      cache_timestamps = [(''search_results_9e107d9d'', 2)],
      cache_access_count = [(''search_results_9e107d9d'', 1)],
      cache_hit_count = [(''search_results_9e107d9d'', 0)],
      cache_miss_count = [(''search_results_9e107d9d'', 0)],
      total_requests = 3, cache_hits = 0, cache_misses = 3, evictions = 0, cleanup_runs = 0,
      available_cosmos = True, available_search = True, cosmos_service = True,
      search_service = True, wall_clock = 4,
      backend_log = [Cosmos_list_invoices 10, Search_search_invoices ''Acme'',
        Cosmos_save_invoice new_invoice, Search_index_invoice new_invoice]\<rparr>)"
  unfolding warm_cache_eq by code_simp

text \<open>
  C2 fails in the code for \<open>update_invoice_status\<close>: after a successful status update
  the \<open>invoice_list_10\<close> entry and the \<open>client_data_acme\<close> entry are still cached, and
  \<open>list_invoices(10)\<close> returns the list cached before the write (status \<open>active\<close>)
  without calling the document store, which would now answer \<open>paid\<close>.
\<close>

theorem C2_status_update_serves_stale_list:
  "fst (update_invoice_status billing_backend ''INV-1'' ''paid'' warm_cache) = Inr (JBool True) \<and>
   ''invoice_list_10'' \<in> set (cache_keys after_status_update) \<and>
   ''client_data_acme'' \<in> set (cache_keys after_status_update) \<and>
   fst (list_invoices billing_backend 10 False after_status_update)
     = Inr (JList [invoice_doc ''active'']) \<and>
   backend_log (snd (list_invoices billing_backend 10 False after_status_update))
     = backend_log after_status_update \<and>
   snd (respond billing_backend (length (backend_log after_status_update)) (Cosmos_list_invoices 10))
     = Inr (JList [invoice_doc ''paid''])"
  unfolding after_status_update_def after_status_update_eq by code_simp

text \<open>
  At that second read the document store is available and the entry is within its TTL:
  the stale list is the cached one, not the answer of a degraded service.
\<close>

theorem C2_status_update_serves_stale_list_witness:
  "available_cosmos after_status_update \<and> cosmos_service after_status_update \<and>
   is_cache_valid (wall_clock after_status_update) ''invoice_list_10'' after_status_update \<and>
   fst (list_invoices billing_backend 10 False after_status_update)
     = Inr (JList [invoice_doc ''active'']) \<and>
   backend_log (snd (list_invoices billing_backend 10 False after_status_update))
     = backend_log after_status_update"
proof -
  have a: "available_cosmos after_status_update \<and> cosmos_service after_status_update \<and>
      is_cache_valid (wall_clock after_status_update) ''invoice_list_10'' after_status_update"
    unfolding after_status_update_def after_status_update_eq by code_simp
  note t = C2_status_update_serves_stale_list [THEN conjunct2, THEN conjunct2, THEN conjunct2]
  from a t [THEN conjunct1] t [THEN conjunct2, THEN conjunct1] show ?thesis by blast
qed

lemma write_invalidation_example:
  "set (cache_keys after_save) = {''search_results_9e107d9d''} \<and>
   ''invoice_list_10'' \<notin> set (cache_keys after_save) \<and>
   ''invoice_detail_INV-2'' \<notin> set (cache_keys after_save) \<and>
   ''client_data_acme'' \<notin> set (cache_keys after_save) \<and>
   backend_log (snd (get_statistics billing_backend False (advance 5 after_save)))
     = backend_log after_save @ [Cosmos_get_invoice_statistics] \<and>
   fst (list_invoices billing_backend 10 False (advance 5 after_save))
     = Inr (JList [invoice_doc ''paid'']) \<and>
   ''invoice_detail_INV-1'' \<notin> set (cache_keys after_status_update) \<and>
   fst (get_statistics billing_backend False (advance 5 after_status_update))
     = Inr (JDict [(''total_invoices'', JNum 1)])"
proof -
  have wf: "cache_wf warm_cache"
    by (simp add: warm_cache_eq cache_wf_def)
  have sv: "save_invoice billing_backend new_invoice warm_cache
              = (Inr \<lparr>cosmos_saved = JBool True, search_indexed = JBool True,
                      storage_warnings = []\<rparr>, after_save) \<and>
            truthy (cosmos_saved \<lparr>cosmos_saved = JBool True, search_indexed = JBool True,
                      storage_warnings = []\<rparr>)"
    by (simp add: after_save_def after_save_eq)
  have up: "update_invoice_status billing_backend ''INV-1'' ''paid'' warm_cache
              = (Inr (JBool True), after_status_update) \<and> truthy (JBool True)"
    by (simp add: after_status_update_def after_status_update_eq)
  note c = write_invalidation [of warm_cache billing_backend new_invoice
      "\<lparr>cosmos_saved = JBool True, search_indexed = JBool True, storage_warnings = []\<rparr>"
      after_save 5 10 "''INV-1''" "''paid''" "JBool True" after_status_update, THEN mp, OF wf]
  note a = c [THEN conjunct1, THEN mp, OF sv]
  note b = c [THEN conjunct2, THEN mp, OF up]
  have g: "py_get new_invoice ''invoice_number'' JNone = Inr (JStr ''INV-2'') \<and> truthy (JStr ''INV-2'')"
      "py_get new_invoice ''client'' (JDict []) = Inr (JDict [(''name'', JStr ''Acme'')]) \<and>
       py_get (JDict [(''name'', JStr ''Acme'')]) ''name'' (JStr []) = Inr (JStr ''Acme'') \<and>
       ''Acme'' \<noteq> []"
    by (simp_all add: new_invoice_def dict_get_def)
  have k0: "set (cache_keys after_save) = {''search_results_9e107d9d''}"
    by (simp add: after_save_def after_save_eq cache_keys_def)
  have k1: "''invoice_list_10'' \<notin> set (cache_keys after_save)"
    using a [THEN conjunct1] category_keys(2) [of "''10''"] by auto
  have k2: "''invoice_detail_INV-2'' \<notin> set (cache_keys after_save)"
    using a [THEN conjunct2, THEN conjunct1, rule_format, OF g(1)] by simp
  have k3: "''client_data_acme'' \<notin> set (cache_keys after_save)"
    using a [THEN conjunct2, THEN conjunct2, THEN conjunct1, rule_format, OF g(2)]
    by (simp add: client_key_acme)
  have len: "length (backend_log after_save) = 4" "length (backend_log after_status_update) = 4"
    by (simp_all add: after_save_def after_save_eq after_status_update_def after_status_update_eq)
  have st: "backend_log (snd (get_statistics billing_backend False (advance 5 after_save)))
     = backend_log after_save @ [Cosmos_get_invoice_statistics]"
    using a [THEN conjunct2, THEN conjunct2, THEN conjunct2, THEN conjunct1] .
  have li: "fst (list_invoices billing_backend 10 False (advance 5 after_save))
     = Inr (JList [invoice_doc ''paid''])"
    using a [THEN conjunct2, THEN conjunct2, THEN conjunct2, THEN conjunct2, THEN conjunct2,
        THEN conjunct2]
    by (simp add: len billing_backend_def)
  have u1: "''invoice_detail_INV-1'' \<notin> set (cache_keys after_status_update)"
    using b [THEN conjunct2, THEN conjunct1] by simp
  have u2: "fst (get_statistics billing_backend False (advance 5 after_status_update))
     = Inr (JDict [(''total_invoices'', JNum 1)])"
    using b [THEN conjunct2, THEN conjunct2, THEN conjunct2]
    by (simp add: len billing_backend_def)
  from k0 k1 k2 k3 st li u1 u2 show ?thesis by blast
qed


section \<open>The job queue of \<^verbatim>\<open>components/invoice_queue.py\<close>\<close>

text \<open>
  A job is a Python object. The in-memory fallback keeps references to job objects in
  \<^verbatim>\<open>_memory_jobs\<close>, the Redis backend keeps a serialised copy of each job in the hash
  \<^verbatim>\<open>job:<id>\<close> and builds a new object at every read. The model has a heap of job
  objects, addressed by numbers, so that a local variable \<^verbatim>\<open>job\<close> is an address and
  \<^verbatim>\<open>job.retry_count += 1\<close> an update of the heap at it. Both queues
  (\<^verbatim>\<open>_memory_queue\<close>, sorted descending after every insertion, and the sorted set
  \<^verbatim>\<open>invoice_queue\<close>, read from its highest score) are lists of
  \<open>(priority, job_id)\<close> in descending order.
\<close>

datatype JobStatus = QUEUED | PROCESSING | COMPLETED | FAILED | CANCELLED

text \<open>
  The fields have the types the dataclass annotates: \<^verbatim>\<open>order_details: Dict\<close> is a
  dictionary, \<^verbatim>\<open>error: Optional[str]\<close> an optional string. \<^verbatim>\<open>result: Optional[Dict]\<close>
  is None or a dictionary and, on a job that has been read back from Redis, may also be
  the empty string that None was written as.
\<close>

datatype job_result = No_result | Empty_string | Result_dict "(string \<times> json) list"

record InvoiceJob =
  job_id :: string
  order_details :: "(string \<times> json) list"
  status :: JobStatus
  created_at :: real
  started_at :: "real option"
  completed_at :: "real option"
  result :: job_result
  error :: "string option"
  progress :: real
  retry_count :: int
  max_retries :: int

record queue_state =
  heap :: "(nat \<times> InvoiceJob) list"
  redis_client :: bool
  redis_jobs :: "(string \<times> InvoiceJob) list"
  redis_queue :: "(int \<times> string) list"
  memory_jobs :: "(string \<times> nat) list"
  memory_queue :: "(int \<times> string) list"
  notified :: "(string \<times> JobStatus) list"

definition InvoiceQueue_init :: "bool \<Rightarrow> queue_state" where
  "InvoiceQueue_init redis =
     \<lparr>heap = [], redis_client = redis, redis_jobs = [], redis_queue = [],
      memory_jobs = [], memory_queue = [], notified = []\<rparr>"

text \<open>
  Writing a job to Redis and reading it back, field by field. The write stores
  \<^verbatim>\<open>json.dumps(value)\<close> for a dictionary, the empty string for None and \<^verbatim>\<open>str(value)\<close>
  otherwise; the read decodes a non-empty \<^verbatim>\<open>order_details\<close> or \<^verbatim>\<open>result\<close> with
  \<^verbatim>\<open>json.loads\<close>, a non-empty time with \<^verbatim>\<open>fromisoformat\<close>, the status by its value,
  the three numbers with \<^verbatim>\<open>float\<close> and \<^verbatim>\<open>int\<close>, and takes every other text as it is.
  So a dictionary (\<^verbatim>\<open>order_details\<close>, a \<^verbatim>\<open>result\<close>: their text is never empty) comes
  back equal, and so do the identifier, the status, the creation time, the numbers and
  an \<^verbatim>\<open>error\<close> text, while a None \<^verbatim>\<open>result\<close> and a None \<^verbatim>\<open>error\<close> come back as the
  empty string. A None \<^verbatim>\<open>started_at\<close> or \<^verbatim>\<open>completed_at\<close> comes back as the empty
  string as well; the code only tests the truth value of these two fields, which is
  false for both, and the model keeps \<open>None\<close> for it.
\<close>

definition redis_roundtrip :: "InvoiceJob \<Rightarrow> InvoiceJob" where
  "redis_roundtrip j =
     j\<lparr>result := (case result j of No_result \<Rightarrow> Empty_string | r \<Rightarrow> r),
       error := Some (case error j of None \<Rightarrow> [] | Some e \<Rightarrow> e)\<rparr>"

text \<open>Python's order on the tuples \<open>(priority, job_id)\<close> and the descending sort.\<close>

definition str_less :: "string \<Rightarrow> string \<Rightarrow> bool" where
  "str_less a b = lexordp (<) (map of_char a :: nat list) (map of_char b)"

definition item_less :: "int \<times> string \<Rightarrow> int \<times> string \<Rightarrow> bool" where
  "item_less a b = (fst a < fst b \<or> (fst a = fst b \<and> str_less (snd a) (snd b)))"

fun insert_desc :: "int \<times> string \<Rightarrow> (int \<times> string) list \<Rightarrow> (int \<times> string) list" where
  "insert_desc x [] = [x]"
| "insert_desc x (y # ys) = (if item_less x y then y # insert_desc x ys else x # y # ys)"

definition sort_desc :: "(int \<times> string) list \<Rightarrow> (int \<times> string) list" where
  "sort_desc xs = foldr insert_desc xs []"

text \<open>\<^verbatim>\<open>zadd\<close>: a member that is already in the set is not added twice.\<close>

definition zadd :: "int \<times> string \<Rightarrow> (int \<times> string) list \<Rightarrow> (int \<times> string) list" where
  "zadd x q = (if x \<in> set q then q else insert_desc x q)"

text \<open>\<^verbatim>\<open>get_job_status\<close> returns a reference to a job object, or None.\<close>

definition get_job_status :: "string \<Rightarrow> queue_state \<Rightarrow> nat option \<times> queue_state" where
  "get_job_status jid s =
     (if redis_client s
      then (case map_of (redis_jobs s) jid of
              None \<Rightarrow> (None, s)
            | Some job_data \<Rightarrow>
                (let a = length (heap s)
                 in (Some a, s\<lparr>heap := heap s @ [(a, redis_roundtrip job_data)]\<rparr>)))
      else (map_of (memory_jobs s) jid, s))"

definition update_job_status ::
  "real \<Rightarrow> string \<Rightarrow> JobStatus \<Rightarrow> real option \<Rightarrow> (string \<times> json) list option
     \<Rightarrow> string option \<Rightarrow> queue_state \<Rightarrow> queue_state" where
  "update_job_status now jid new_status new_progress new_result new_error s =
     (case get_job_status jid s of
        (None, s1) \<Rightarrow> s1
      | (Some a, s1) \<Rightarrow>
          (case map_of (heap s1) a of
             None \<Rightarrow> s1
           | Some job \<Rightarrow>
               (let j1 = job\<lparr>status := new_status,
                              progress := (case new_progress of None \<Rightarrow> progress job | Some p \<Rightarrow> p),
                              result := (case new_result of None \<Rightarrow> result job | Some r \<Rightarrow> Result_dict r),
                              error := (case new_error of None \<Rightarrow> error job | Some e \<Rightarrow> Some e)\<rparr>;
                    j2 = (if new_status = PROCESSING \<and> started_at j1 = None
                          then j1\<lparr>started_at := Some now\<rparr>
                          else if new_status \<in> {COMPLETED, FAILED, CANCELLED}
                          then j1\<lparr>completed_at := Some now\<rparr>
                          else j1);
                    s2 = s1\<lparr>heap := AList.update a j2 (heap s1)\<rparr>;
                    s3 = (if redis_client s2
                          then s2\<lparr>redis_jobs := AList.update jid j2 (redis_jobs s2)\<rparr>
                          else s2\<lparr>memory_jobs := AList.update jid a (memory_jobs s2)\<rparr>)
                in s3\<lparr>notified := notified s3 @ [(jid, new_status)]\<rparr>)))"

text \<open>\<^verbatim>\<open>enqueue_invoice\<close>; the identifier \<^verbatim>\<open>uuid4\<close> draws is the argument \<open>jid\<close>.\<close>

definition enqueue_invoice ::
  "real \<Rightarrow> string \<Rightarrow> (string \<times> json) list \<Rightarrow> int \<Rightarrow> queue_state \<Rightarrow> string \<times> queue_state" where
  "enqueue_invoice now jid details priority s =
     (let job = \<lparr>job_id = jid, order_details = details, status = QUEUED, created_at = now,
                  started_at = None, completed_at = None, result = No_result, error = None,
                  progress = 0, retry_count = 0, max_retries = 3\<rparr>;
          a = length (heap s);
          s1 = s\<lparr>heap := heap s @ [(a, job)]\<rparr>;
          s2 = (if redis_client s1
                then s1\<lparr>redis_jobs := AList.update jid job (redis_jobs s1),
                        redis_queue := zadd (priority, jid) (redis_queue s1)\<rparr>
                else s1\<lparr>memory_jobs := AList.update jid a (memory_jobs s1),
                        memory_queue := sort_desc (memory_queue s1 @ [(priority, jid)])\<rparr>)
      in (jid, s2\<lparr>notified := notified s2 @ [(jid, QUEUED)]\<rparr>))"

definition get_next_job :: "queue_state \<Rightarrow> string option \<times> queue_state" where
  "get_next_job s =
     (if redis_client s
      then (case redis_queue s of
              [] \<Rightarrow> (None, s)
            | (priority, jid) # rest \<Rightarrow> (Some jid, s\<lparr>redis_queue := rest\<rparr>))
      else (case memory_queue s of
              [] \<Rightarrow> (None, s)
            | (priority, jid) # rest \<Rightarrow> (Some jid, s\<lparr>memory_queue := rest\<rparr>)))"

text \<open>
  What the generation and the save do is the environment's: the \<^verbatim>\<open>try\<close> block of
  \<^verbatim>\<open>_process_job\<close> either raises before the call to the AI returns (progress 0.2),
  raises after it (progress 0.6: an unsuccessful result, or an exception of the
  extraction or the save), or completes with a final result.
\<close>

datatype outcome =
  Raises_in_generation string | Raises_after_generation string
  | Completes "(string \<times> json) list"

text \<open>The \<^verbatim>\<open>except\<close> block: retry, or give up.\<close>

definition handle_failure :: "real \<Rightarrow> string \<Rightarrow> string \<Rightarrow> queue_state \<Rightarrow> queue_state" where
  "handle_failure now jid error_msg s =
     (case get_job_status jid s of
        (None, s1) \<Rightarrow> update_job_status now jid FAILED None None (Some error_msg) s1
      | (Some a, s1) \<Rightarrow>
          (case map_of (heap s1) a of
             None \<Rightarrow> s1
           | Some job \<Rightarrow>
               if retry_count job < max_retries job
               then
                 (let job' = job\<lparr>retry_count := retry_count job + 1\<rparr>;
                      s2 = s1\<lparr>heap := AList.update a job' (heap s1)\<rparr>;
                      s3 = update_job_status now jid QUEUED None None None s2
                  in if redis_client s3
                     then s3\<lparr>redis_queue := zadd (- retry_count job', jid) (redis_queue s3)\<rparr>
                     else s3\<lparr>memory_queue :=
                               sort_desc (memory_queue s3 @ [(- retry_count job', jid)])\<rparr>)
               else update_job_status now jid FAILED None None (Some error_msg) s1))"

definition process_job :: "real \<Rightarrow> outcome \<Rightarrow> string \<Rightarrow> queue_state \<Rightarrow> queue_state" where
  "process_job now what jid s =
     (case get_job_status jid s of
        (None, s1) \<Rightarrow> s1
      | (Some a, s1) \<Rightarrow>
          (let s2 = update_job_status now jid PROCESSING (Some 0) None None s1;
               s3 = update_job_status now jid PROCESSING (Some (2 / 10)) None None s2
           in case what of
                Raises_in_generation msg \<Rightarrow> handle_failure now jid msg s3
              | Raises_after_generation msg \<Rightarrow>
                  handle_failure now jid msg
                    (update_job_status now jid PROCESSING (Some (6 / 10)) None None s3)
              | Completes final_result \<Rightarrow>
                  (let s4 = update_job_status now jid PROCESSING (Some (6 / 10)) None None s3;
                       s5 = update_job_status now jid PROCESSING (Some (9 / 10)) None None s4
                   in update_job_status now jid COMPLETED (Some 1) (Some final_result) None s5)))"

text \<open>
  \<^verbatim>\<open>cancel_job\<close>: the Redis branch removes the first member of the job in ascending
  order of score, the memory branch every entry of the job.
\<close>

fun remove_last_of :: "string \<Rightarrow> (int \<times> string) list \<Rightarrow> (int \<times> string) list" where
  "remove_last_of jid [] = []"
| "remove_last_of jid (x # xs) =
     (if snd x = jid \<and> jid \<notin> snd ` set xs then xs else x # remove_last_of jid xs)"

definition cancel_job :: "real \<Rightarrow> string \<Rightarrow> queue_state \<Rightarrow> bool \<times> queue_state" where
  "cancel_job now jid s =
     (case get_job_status jid s of
        (None, s1) \<Rightarrow> (False, s1)
      | (Some a, s1) \<Rightarrow>
          (case map_of (heap s1) a of
             None \<Rightarrow> (False, s1)
           | Some job \<Rightarrow>
               if status job = QUEUED
               then (let s2 = update_job_status now jid CANCELLED None None None s1
                     in (True,
                         if redis_client s2
                         then s2\<lparr>redis_queue := remove_last_of jid (redis_queue s2)\<rparr>
                         else s2\<lparr>memory_queue := filter (\<lambda>(p, j). j \<noteq> jid) (memory_queue s2)\<rparr>))
               else (False, s1)))"

text \<open>The stored job, as a later \<^verbatim>\<open>get_job_status\<close> shows it.\<close>

definition stored_job :: "string \<Rightarrow> queue_state \<Rightarrow> InvoiceJob option" where
  "stored_job jid s =
     (case get_job_status jid s of
        (None, s1) \<Rightarrow> None
      | (Some a, s1) \<Rightarrow> map_of (heap s1) a)"

text \<open>A worker's step: take the next job from the queue and process it.\<close>

definition work :: "real \<Rightarrow> outcome \<Rightarrow> queue_state \<Rightarrow> queue_state" where
  "work now what s =
     (case get_next_job s of
        (None, s1) \<Rightarrow> s1
      | (Some jid, s1) \<Rightarrow> process_job now what jid s1)"


text \<open>The addresses of the heap are \<open>0, ..., length heap - 1\<close>, so that a new object gets
  an unused address.\<close>

definition heap_ok :: "queue_state \<Rightarrow> bool" where
  "heap_ok s \<longleftrightarrow> map fst (heap s) = [0..<length (heap s)]"

lemma map_of_fresh:
  assumes "map fst h = [0..<length h]"
  shows "map_of (h @ [(length h, v)]) (length h) = Some v"
proof -
  have "length h \<notin> set (map fst h)" unfolding assms by simp
  then have "map_of h (length h) = None" by (simp add: map_of_eq_None_iff)
  then show ?thesis by (simp add: map_add_def map_of_append)
qed

lemma redis_get_job_status:
  assumes "redis_client s" and "map_of (redis_jobs s) jid = Some j" and "heap_ok s"
  shows "get_job_status jid s
           = (Some (length (heap s)), s\<lparr>heap := heap s @ [(length (heap s), redis_roundtrip j)]\<rparr>)"
    and "map_of (heap s @ [(length (heap s), redis_roundtrip j)]) (length (heap s))
           = Some (redis_roundtrip j)"
  using assms map_of_fresh [of "heap s"]
  by (simp_all add: get_job_status_def Let_def heap_ok_def)

lemma heap_ok_append: "heap_ok s \<Longrightarrow> heap_ok (s\<lparr>heap := heap s @ [(length (heap s), v)]\<rparr>)"
  by (simp add: heap_ok_def)

lemma update_keys_in_place:
  "k \<in> fst ` set al \<Longrightarrow> map fst (AList.update k v al) = map fst al"
  by (induction al) auto

lemma heap_ok_update:
  "heap_ok s \<Longrightarrow> a < length (heap s) \<Longrightarrow> heap_ok (s\<lparr>heap := AList.update a v (heap s)\<rparr>)"
proof -
  assume ok: "heap_ok s" and a: "a < length (heap s)"
  then have "a \<in> set (map fst (heap s))" by (simp add: heap_ok_def)
  then have "map fst (AList.update a v (heap s)) = map fst (heap s)"
    by (simp add: update_keys_in_place)
  with ok show ?thesis by (simp add: heap_ok_def) (metis length_map)
qed

text \<open>
  With Redis, \<^verbatim>\<open>update_job_status\<close> writes back the copy it has read itself: the
  stored \<^verbatim>\<open>retry_count\<close> is the one that was stored before, whatever a caller did to an
  object of its own, and the retry branch of the \<^verbatim>\<open>except\<close> block leaves every job with
  retries left as it found it, queued.
\<close>

lemma redis_update_job_status:
  assumes "redis_client s" and "map_of (redis_jobs s) jid = Some j" and "heap_ok s"
  shows "\<exists>j'. map_of (redis_jobs (update_job_status now jid st pr re er s)) jid = Some j' \<and>
           status j' = st \<and> retry_count j' = retry_count j \<and> max_retries j' = max_retries j"
  using redis_get_job_status [OF assms] assms(1)
  by (simp add: update_job_status_def Let_def AList.update_conv' redis_roundtrip_def)

lemma redis_retry_count_unchanged:
  assumes "redis_client s" and "map_of (redis_jobs s) jid = Some j" and "heap_ok s"
    and "retry_count j < max_retries j"
  shows "\<exists>j'. map_of (redis_jobs (handle_failure now jid msg s)) jid = Some j' \<and>
           status j' = QUEUED \<and> retry_count j' = retry_count j \<and> max_retries j' = max_retries j"
proof -
  let ?a = "length (heap s)"
  let ?s1 = "s\<lparr>heap := heap s @ [(?a, redis_roundtrip j)]\<rparr>"
  let ?job' = "(redis_roundtrip j)\<lparr>retry_count := retry_count (redis_roundtrip j) + 1\<rparr>"
  let ?s2 = "?s1\<lparr>heap := AList.update ?a ?job' (heap ?s1)\<rparr>"
  have ok1: "heap_ok ?s1" by (rule heap_ok_append [OF assms(3)])
  have ok2: "heap_ok ?s2" using heap_ok_update [OF ok1, of ?a ?job'] by simp
  have r2: "redis_client ?s2" "map_of (redis_jobs ?s2) jid = Some j"
    using assms by simp_all
  from redis_update_job_status [OF r2 ok2, of now QUEUED None None None]
  obtain j' where j': "map_of (redis_jobs (update_job_status now jid QUEUED None None None ?s2)) jid
        = Some j'" "status j' = QUEUED" "retry_count j' = retry_count j"
        "max_retries j' = max_retries j"
    by blast
  have rc: "redis_client (update_job_status now jid QUEUED None None None ?s2)"
    using redis_get_job_status [OF r2 ok2] r2
    by (simp add: update_job_status_def Let_def)
  have lt: "retry_count (redis_roundtrip j) < max_retries (redis_roundtrip j)"
    using assms(4) by (simp add: redis_roundtrip_def)
  have "handle_failure now jid msg s =
      (update_job_status now jid QUEUED None None None ?s2)
        \<lparr>redis_queue := zadd (- retry_count ?job', jid)
            (redis_queue (update_job_status now jid QUEUED None None None ?s2))\<rparr>"
    using redis_get_job_status [OF assms(1,2,3)] lt rc
    by (simp add: handle_failure_def Let_def)
  with j' show ?thesis by simp
qed


text \<open>
  With the in-memory fallback the object is shared: a failure with retries left queues
  the job again with \<^verbatim>\<open>retry_count\<close> one higher and priority \<open>- retry_count\<close>, a failure
  without ends in status failed; on both backends \<^verbatim>\<open>cancel_job\<close> succeeds on a queued
  job, which it marks cancelled, and returns False on a job of any other status, which
  it leaves as it is; a new job is queued.
\<close>

lemma memory_update_job_status:
  assumes "\<not> redis_client s" and "map_of (memory_jobs s) jid = Some a"
    and "map_of (heap s) a = Some j"
  shows "stored_job jid (update_job_status now jid st None None None s)
           = Some (if st = PROCESSING \<and> started_at j = None
                   then j\<lparr>status := st, started_at := Some now\<rparr>
                   else if st \<in> {COMPLETED, FAILED, CANCELLED}
                   then j\<lparr>status := st, completed_at := Some now\<rparr>
                   else j\<lparr>status := st\<rparr>)"
    and "memory_queue (update_job_status now jid st None None None s) = memory_queue s"
    and "\<not> redis_client (update_job_status now jid st None None None s)"
  using assms
  by (auto simp: update_job_status_def get_job_status_def stored_job_def Let_def
      AList.update_conv')

lemma memory_handle_failure:
  assumes "\<not> redis_client s" and "map_of (memory_jobs s) jid = Some a"
    and "map_of (heap s) a = Some j"
  shows "retry_count j < max_retries j \<longrightarrow>
           stored_job jid (handle_failure now jid msg s)
             = Some (j\<lparr>status := QUEUED, retry_count := retry_count j + 1\<rparr>) \<and>
           memory_queue (handle_failure now jid msg s)
             = sort_desc (memory_queue s @ [(- (retry_count j + 1), jid)])"
    and "\<not> retry_count j < max_retries j \<longrightarrow>
           stored_job jid (handle_failure now jid msg s)
             = Some (j\<lparr>status := FAILED, completed_at := Some now, error := Some msg\<rparr>) \<and>
           memory_queue (handle_failure now jid msg s) = memory_queue s"
  using assms
  by (auto simp: handle_failure_def update_job_status_def get_job_status_def stored_job_def
      Let_def AList.update_conv')

lemma memory_cancel_job:
  assumes "\<not> redis_client s" and "map_of (memory_jobs s) jid = Some a"
    and "map_of (heap s) a = Some j"
  shows "status j = QUEUED \<longrightarrow>
           fst (cancel_job now jid s) \<and>
           stored_job jid (snd (cancel_job now jid s))
             = Some (j\<lparr>status := CANCELLED, completed_at := Some now\<rparr>) \<and>
           jid \<notin> snd ` set (memory_queue (snd (cancel_job now jid s)))"
    and "status j \<noteq> QUEUED \<longrightarrow>
           \<not> fst (cancel_job now jid s) \<and> snd (cancel_job now jid s) = s"
  using assms
  by (auto simp: cancel_job_def update_job_status_def get_job_status_def stored_job_def
      Let_def AList.update_conv')

lemma redis_cancel_job:
  assumes "redis_client s" and "map_of (redis_jobs s) jid = Some j" and "heap_ok s"
  shows "status j = QUEUED \<longrightarrow>
           fst (cancel_job now jid s) \<and>
           (\<exists>j'. map_of (redis_jobs (snd (cancel_job now jid s))) jid = Some j' \<and>
                 status j' = CANCELLED)"
    and "status j \<noteq> QUEUED \<longrightarrow>
           \<not> fst (cancel_job now jid s) \<and>
           redis_jobs (snd (cancel_job now jid s)) = redis_jobs s \<and>
           redis_queue (snd (cancel_job now jid s)) = redis_queue s"
proof -
  let ?s1 = "s\<lparr>heap := heap s @ [(length (heap s), redis_roundtrip j)]\<rparr>"
  note g = redis_get_job_status [OF assms]
  have st: "status (redis_roundtrip j) = status j" by (simp add: redis_roundtrip_def)
  have r1: "redis_client ?s1" "map_of (redis_jobs ?s1) jid = Some j"
    using assms by simp_all
  have ok1: "heap_ok ?s1" by (rule heap_ok_append [OF assms(3)])
  from redis_update_job_status [OF r1 ok1, of now CANCELLED None None None]
  obtain j' where j': "map_of (redis_jobs (update_job_status now jid CANCELLED None None None ?s1)) jid
        = Some j'" "status j' = CANCELLED"
    by blast
  show "status j = QUEUED \<longrightarrow>
           fst (cancel_job now jid s) \<and>
           (\<exists>j'. map_of (redis_jobs (snd (cancel_job now jid s))) jid = Some j' \<and>
                 status j' = CANCELLED)"
    using g st j' by (auto simp: cancel_job_def Let_def)
  show "status j \<noteq> QUEUED \<longrightarrow>
           \<not> fst (cancel_job now jid s) \<and>
           redis_jobs (snd (cancel_job now jid s)) = redis_jobs s \<and>
           redis_queue (snd (cancel_job now jid s)) = redis_queue s"
    using g st by (simp add: cancel_job_def)
qed

lemma enqueue_invoice_queued:
  assumes "heap_ok s"
  shows "map_option status (stored_job jid (snd (enqueue_invoice now jid details priority s)))
     = Some QUEUED"
proof (cases "redis_client s")
  case False
  then show ?thesis
    using map_of_fresh [of "heap s"] assms
    by (simp add: enqueue_invoice_def stored_job_def get_job_status_def Let_def
        AList.update_conv' heap_ok_def)
next
  case True
  let ?job = "\<lparr>job_id = jid, order_details = details, status = QUEUED, created_at = now,
                  started_at = None, completed_at = None, result = No_result, error = None,
                  progress = 0, retry_count = 0, max_retries = 3\<rparr>"
  let ?s' = "snd (enqueue_invoice now jid details priority s)"
  have s': "redis_client ?s'" "map_of (redis_jobs ?s') jid = Some ?job" "heap_ok ?s'"
    using True assms by (simp_all add: enqueue_invoice_def Let_def AList.update_conv' heap_ok_def)
  from redis_get_job_status [OF s'] show ?thesis
    by (simp add: stored_job_def redis_roundtrip_def)
qed

text \<open>
  One job with empty order details, enqueued with priority 0 on a queue with the given
  backend, whose processing raises in the AI call each of the four times a worker takes
  it.
\<close>

definition failing_four_times :: "bool \<Rightarrow> queue_state" where
  "failing_four_times redis =
     work 4 (Raises_in_generation ''boom'')
       (work 3 (Raises_in_generation ''boom'')
         (work 2 (Raises_in_generation ''boom'')
           (work 1 (Raises_in_generation ''boom'')
             (snd (enqueue_invoice 0 ''job-1'' [] 0 (InvoiceQueue_init redis))))))"

text \<open>
  C9 fails on the Redis backend. \<^verbatim>\<open>_process_job\<close> adds one to \<^verbatim>\<open>retry_count\<close> on the
  object it has just read from Redis and then calls \<^verbatim>\<open>update_job_status\<close>, which reads
  the job from Redis again and writes that copy back: the increment is lost. After four
  failures (\<^verbatim>\<open>max_retries\<close> + 1) the stored job is queued with \<^verbatim>\<open>retry_count\<close> 0 and is
  in the queue again with priority -1. On the in-memory backend, where the object is
  shared, the same four failures end in status failed with \<^verbatim>\<open>retry_count\<close> 3 and an
  empty queue.
\<close>

theorem C9_redis_retry_count_is_lost:
  "map_option (\<lambda>j. (status j, retry_count j)) (stored_job ''job-1'' (failing_four_times True))
     = Some (QUEUED, 0) \<and>
   redis_queue (failing_four_times True) = [(- 1, ''job-1'')] \<and>
   map_option (\<lambda>j. (status j, retry_count j)) (stored_job ''job-1'' (failing_four_times False))
     = Some (FAILED, 3) \<and>
   memory_queue (failing_four_times False) = []"
  by code_simp

end
